theory Spec2Isabelle
  imports Main "HOL-Library.Word"
begin

section \<open>Go strings\<close>

text \<open>
  A Go string is a sequence of bytes; it is modelled as a \<open>string\<close> (a list of 8-bit
  characters), and \<open>len\<close> is \<open>length\<close>. The functions below are those of package
  \<open>strings\<close> that the slow log parser calls.
\<close>

definition newline :: char where
  "newline = CHR 0x0A"

definition HasPrefix :: "string \<Rightarrow> string \<Rightarrow> bool" where
  "HasPrefix s pre = (take (length pre) s = pre)"

definition HasSuffix :: "string \<Rightarrow> string \<Rightarrow> bool" where
  "HasSuffix s suf = (length suf \<le> length s \<and> drop (length s - length suf) s = suf)"

definition TrimPrefix :: "string \<Rightarrow> string \<Rightarrow> string" where
  "TrimPrefix s pre = (if HasPrefix s pre then drop (length pre) s else s)"

definition TrimSuffix :: "string \<Rightarrow> string \<Rightarrow> string" where
  "TrimSuffix s suf = (if HasSuffix s suf then take (length s - length suf) s else s)"

text \<open>\<open>strings.TrimRight(s, cutset)\<close> removes every trailing byte that is in the cutset.\<close>

definition TrimRight :: "string \<Rightarrow> string \<Rightarrow> string" where
  "TrimRight s cutset = rev (dropWhile (\<lambda>c. c \<in> set cutset) (rev s))"

section \<open>strconv.ParseUint(s, 10, 64)\<close>

text \<open>
  The parser calls \<open>strconv.ParseUint(tok, 10, 64)\<close> and drops the error. The function
  is the standard library's: an empty string or a byte that is not a decimal digit is a
  syntax error with value 0; a value that does not fit 64 bits is a range error with the
  value \<open>2^64 - 1\<close>. The loop below is the library's loop for base 10 and 64 bits, with
  its two overflow checks.
\<close>

datatype NumError = ErrSyntax | ErrRange

definition is_digit :: "char \<Rightarrow> bool" where
  "is_digit c = ((48::nat) \<le> of_char c \<and> of_char c \<le> (57::nat))"

definition maxUint64 :: "64 word" where
  "maxUint64 = - 1"

definition cutoff :: "64 word" where
  "cutoff = maxUint64 div 10 + 1"

fun ParseUint_loop :: "64 word \<Rightarrow> string \<Rightarrow> 64 word \<times> NumError option" where
  "ParseUint_loop n [] = (n, None)"
| "ParseUint_loop n (c # cs) =
     (if \<not> is_digit c then (0, Some ErrSyntax)
      else if n \<ge> cutoff then (maxUint64, Some ErrRange)
      else
        let m = n * 10;
            n1 = m + (of_char c - 48)
        in if n1 < m then (maxUint64, Some ErrRange) else ParseUint_loop n1 cs)"

definition ParseUint :: "string \<Rightarrow> 64 word \<times> NumError option" where
  "ParseUint s = (if s = [] then (0, Some ErrSyntax) else ParseUint_loop 0 s)"

section \<open>The regular expressions\<close>

text \<open>
  Package \<open>regexp\<close> returns the match a backtracking search finds first (leftmost, and
  among the leftmost the one preferred by the order of alternatives and by greedy or lazy
  repetition). A pattern is modelled as a function from the text at a position to the
  list of its possible matches there, as pairs (matched text, remaining text), in the
  order backtracking tries them; the head of the list is the match. All repetitions in
  the parser's patterns are over a single character class.
\<close>

type_synonym matcher = "string \<Rightarrow> (string \<times> string) list"

definition is_space :: "char \<Rightarrow> bool" where
  \<comment> \<open>\<open>\s\<close> is \<open>[\t\n\f\r ]\<close>\<close>
  "is_space c = (c = CHR 0x09 \<or> c = CHR 0x0A \<or> c = CHR 0x0C \<or> c = CHR 0x0D \<or> c = CHR 0x20)"

definition non_space :: "char \<Rightarrow> bool" where
  \<comment> \<open>\<open>\S\<close>\<close>
  "non_space c = (\<not> is_space c)"

definition is_upper :: "char \<Rightarrow> bool" where
  \<comment> \<open>\<open>[A-Z]\<close>\<close>
  "is_upper c = ((65::nat) \<le> of_char c \<and> of_char c \<le> (90::nat))"

definition is_word :: "char \<Rightarrow> bool" where
  \<comment> \<open>\<open>\w\<close> is \<open>[0-9A-Za-z_]\<close>\<close>
  "is_word c = (is_digit c \<or> is_upper c
      \<or> ((97::nat) \<le> of_char c \<and> of_char c \<le> (122::nat)) \<or> c = CHR ''_'')"

definition any_char :: "char \<Rightarrow> bool" where
  \<comment> \<open>\<open>.\<close> is any character but a newline\<close>
  "any_char c = (c \<noteq> newline)"

definition not_lbracket :: "char \<Rightarrow> bool" where
  \<comment> \<open>\<open>[^\[]\<close>\<close>
  "not_lbracket c = (c \<noteq> CHR ''['')"

definition lit :: "string \<Rightarrow> matcher" where
  "lit w s = (if HasPrefix s w then [(w, drop (length w) s)] else [])"

definition run :: "(char \<Rightarrow> bool) \<Rightarrow> string \<Rightarrow> nat" where
  "run P s = length (takeWhile P s)"

definition cut :: "string \<Rightarrow> nat \<Rightarrow> string \<times> string" where
  "cut s k = (take k s, drop k s)"

definition greedy :: "(char \<Rightarrow> bool) \<Rightarrow> nat \<Rightarrow> matcher" where
  \<comment> \<open>at least \<open>lo\<close> characters of the class, the longest first\<close>
  "greedy P lo s = map (cut s) (rev [lo ..< Suc (run P s)])"

definition greedy_upto :: "(char \<Rightarrow> bool) \<Rightarrow> nat \<Rightarrow> nat \<Rightarrow> matcher" where
  \<comment> \<open>between \<open>lo\<close> and \<open>hi\<close> characters of the class, the longest first\<close>
  "greedy_upto P lo hi s = map (cut s) (rev [lo ..< Suc (min hi (run P s))])"

definition lazy :: "(char \<Rightarrow> bool) \<Rightarrow> nat \<Rightarrow> matcher" where
  \<comment> \<open>at least \<open>lo\<close> characters of the class, the shortest first\<close>
  "lazy P lo s = map (cut s) [lo ..< Suc (run P s)]"

definition end_of_text :: matcher where
  \<comment> \<open>\<open>\z\<close>\<close>
  "end_of_text s = (if s = [] then [([], [])] else [])"

definition seq :: "matcher \<Rightarrow> matcher \<Rightarrow> matcher" where
  "seq m1 m2 s = concat (map (\<lambda>(a, r). map (\<lambda>(b, r'). (a @ b, r')) (m2 r)) (m1 s))"

definition alt :: "matcher \<Rightarrow> matcher \<Rightarrow> matcher" where
  "alt m1 m2 s = m1 s @ m2 s"

text \<open>An unanchored search tries every position from the left.\<close>

fun search :: "(string \<Rightarrow> 'a list) \<Rightarrow> string \<Rightarrow> 'a option" where
  "search m [] = (case m [] of [] \<Rightarrow> None | x # _ \<Rightarrow> Some x)"
| "search m (c # cs) = (case m (c # cs) of [] \<Rightarrow> search m cs | x # _ \<Rightarrow> Some x)"

text \<open>\<open>timeRe = Time: (\S+\s{1,2}\S+)\<close>; the result is submatch 1.\<close>

definition timeRe :: "string \<Rightarrow> string list" where
  "timeRe s =
     [ts. (_, r) \<leftarrow> lit ''Time: '' s,
          (ts, _) \<leftarrow> seq (greedy non_space 1) (seq (greedy_upto is_space 1 2) (greedy non_space 1)) r]"

definition timeRe_FindStringSubmatch :: "string \<Rightarrow> string option" where
  "timeRe_FindStringSubmatch line = search timeRe line"

text \<open>
  \<open>userRe = User@Host: ([^\[]+|\[[^[]+\]).*?@ (\S*) \[(.*)\]\<close>; the result is the
  pair of submatches 1 and 2 (submatch 3 is not used).
\<close>

definition userRe :: "string \<Rightarrow> (string \<times> string) list" where
  "userRe s =
     [(u, h). (_, r0) \<leftarrow> lit ''User@Host: '' s,
              (u, r1) \<leftarrow> alt (greedy not_lbracket 1)
                            (seq (lit ''['') (seq (greedy not_lbracket 1) (lit '']''))) r0,
              (_, r2) \<leftarrow> lazy any_char 0 r1,
              (_, r3) \<leftarrow> lit ''@ '' r2,
              (h, r4) \<leftarrow> greedy non_space 0 r3,
              (_, r5) \<leftarrow> lit '' ['' r4,
              (_, r6) \<leftarrow> greedy any_char 0 r5,
              (_, _) \<leftarrow> lit '']'' r6]"

definition userRe_FindStringSubmatch :: "string \<Rightarrow> (string \<times> string) option" where
  "userRe_FindStringSubmatch line = search userRe line"

definition userRe_MatchString :: "string \<Rightarrow> bool" where
  "userRe_MatchString line = (userRe_FindStringSubmatch line \<noteq> None)"

text \<open>\<open>headerRe = ^#\s+[A-Z]\<close>, anchored at the start of the line.\<close>

definition headerRe_MatchString :: "string \<Rightarrow> bool" where
  "headerRe_MatchString line =
     (seq (lit ''#'') (seq (greedy is_space 1) (greedy_upto is_upper 1 1)) line \<noteq> [])"

text \<open>\<open>adminRe = command: (.+)\<close>; the result is submatch 1.\<close>

definition adminRe :: "string \<Rightarrow> string list" where
  "adminRe s = [cmd. (_, r) \<leftarrow> lit ''command: '' s, (cmd, _) \<leftarrow> greedy any_char 1 r]"

definition adminRe_FindStringSubmatch :: "string \<Rightarrow> string option" where
  "adminRe_FindStringSubmatch line = search adminRe line"

text \<open>\<open>setRe = SET (?:last_insert_id|insert_id|timestamp)\<close>\<close>

definition setRe :: "string \<Rightarrow> unit list" where
  "setRe s =
     [(). (_, r) \<leftarrow> lit ''SET '' s,
          (_, _) \<leftarrow> alt (lit ''last_insert_id'') (alt (lit ''insert_id'') (lit ''timestamp'')) r]"

definition setRe_MatchString :: "string \<Rightarrow> bool" where
  "setRe_MatchString line = (search setRe line \<noteq> None)"

text \<open>
  \<open>metricsRe = (\w+): (\S+|\z)\<close>. One match at a position gives the pair of submatches
  1 and 2 and the text after the match. \<open>FindAllStringSubmatch(line, -1)\<close> collects the
  successive non-overlapping matches from the left. A match of this pattern holds at least
  a name character, a colon and a space, so the text after it is always shorter and the
  test on the lengths below always succeeds (\<open>metricsRe_shorter\<close> proves it); it is there
  for the recursion to be total.
\<close>

definition metricsRe :: "string \<Rightarrow> ((string \<times> string) \<times> string) list" where
  "metricsRe s =
     [((name, val), r2). (name, r0) \<leftarrow> greedy is_word 1 s,
                         (_, r1) \<leftarrow> lit '': '' r0,
                         (val, r2) \<leftarrow> alt (greedy non_space 1) end_of_text r1]"

function metricsRe_FindAllStringSubmatch :: "string \<Rightarrow> (string \<times> string) list" where
  "metricsRe_FindAllStringSubmatch s =
     (case metricsRe s of
        (smv, r) # _ \<Rightarrow>
          (if length r < length s then smv # metricsRe_FindAllStringSubmatch r else [smv])
      | [] \<Rightarrow> (case s of [] \<Rightarrow> [] | _ # cs \<Rightarrow> metricsRe_FindAllStringSubmatch cs))"
  by pat_completeness auto
termination
  by (relation "measure length") auto

declare metricsRe_FindAllStringSubmatch.simps [simp del]

section \<open>Events and options\<close>

text \<open>
  Modelled from the spec: the type \<open>log.Event\<close> and its constructor \<open>log.NewEvent\<close>
  belong to package \<open>log\<close> of the repository, whose source is not among the files
  verified here.
  The fields are those the parser assigns, with the types of the values it assigns to
  them; a new event is empty (the argument of \<open>NewEvent\<close> is Go's empty argument
  list). A \<open>float32\<close> is a value of the type parameter \<open>'f\<close>.
\<close>

record 'f Event =
  Offset :: "64 word"
  Ts :: string
  Admin :: bool
  Query :: string
  User :: string
  Host :: string
  Db :: string
  TimeMetrics :: "string \<rightharpoonup> 'f"
  NumberMetrics :: "string \<rightharpoonup> 64 word"
  BoolMetrics :: "string \<rightharpoonup> bool"
  RateType :: string
  RateLimit :: "8 word"

definition NewEvent :: "unit \<Rightarrow> 'f Event" where
  "NewEvent _ = \<lparr> Offset = 0, Ts = [], Admin = False, Query = [], User = [], Host = [],
                Db = [], TimeMetrics = Map.empty, NumberMetrics = Map.empty,
                BoolMetrics = Map.empty, RateType = [], RateLimit = 0 \<rparr>"

text \<open>
  Modelled from the spec: the type \<open>log.Options\<close> is in the same missing package. The
  parser reads \<open>StartOffset\<close> (an unsigned 64-bit integer) and \<open>FilterAdminCommand\<close>
  (a Go map from command names to booleans, where a missing key reads as false); the
  \<open>Debug\<close> flag only prints and is left out.
\<close>

record Options =
  StartOffset :: "64 word"
  FilterAdminCommand :: "string \<rightharpoonup> bool"

definition filtered :: "Options \<Rightarrow> string \<Rightarrow> bool" where
  "filtered opt cmd = (case FilterAdminCommand opt cmd of Some b \<Rightarrow> b | None \<Rightarrow> False)"

section \<open>The parser state\<close>

text \<open>
  The fields of \<open>SlowLogParser\<close>, with \<open>uint\<close> taken as 64 bits wide. The two channels
  stand for the environment. \<open>eventChan\<close> is the list of the events a consumer has
  received, in order. \<open>stopChan\<close> is the schedule of the stop signal: one entry is
  consumed by every \<open>select\<close> that has a receive from the stop channel as a case, and
  \<open>True\<close> means that this select takes the stop case. When the schedule is used up no
  stop signal ever arrives. A select in which neither case ever becomes ready blocks
  forever; such runs have no result and are not part of the model.
\<close>

record 'f SlowLogParser =
  stopChan :: "bool list"
  eventChan :: "'f Event list"
  inHeader :: bool
  inQuery :: bool
  headerLines :: "64 word"
  queryLines :: "64 word"
  bytesRead :: "64 word"
  lineOffset :: "64 word"
  stopped :: bool
  event :: "'f Event"

definition NewSlowLogParser :: "Options \<Rightarrow> bool list \<Rightarrow> 'f SlowLogParser" where
  "NewSlowLogParser opt sig =
     \<lparr> stopChan = sig, eventChan = [], inHeader = False, inQuery = False,
       headerLines = 0, queryLines = 0, bytesRead = StartOffset opt, lineOffset = 0,
       stopped = False, event = NewEvent () \<rparr>"

definition stopSignal :: "'f SlowLogParser \<Rightarrow> bool" where
  \<comment> \<open>the next select takes the stop case\<close>
  "stopSignal p = (case stopChan p of [] \<Rightarrow> False | b # _ \<Rightarrow> b)"

text \<open>
  A call either returns the parser state or stops the program: with a runtime panic (an
  index into the nil result of a failed regular expression match, or the finalizer's
  \<open>Panicf\<close>), or, in \<open>Start\<close>, with the error of a failed seek or read. The state at
  that moment is kept with the fault, so that the events delivered before it stay visible.
\<close>

datatype fault = PanicIndexOutOfRange | PanicNoQueryTime | ErrRead | ErrSeek

type_synonym 'f result = "(fault \<times> 'f SlowLogParser) + 'f SlowLogParser"

definition state_of :: "'f result \<Rightarrow> 'f SlowLogParser" where
  "state_of res = (case res of Inl (f, p) \<Rightarrow> p | Inr p \<Rightarrow> p)"

definition fault_of :: "'f result \<Rightarrow> fault option" where
  "fault_of res = (case res of Inl (f, p) \<Rightarrow> Some f | Inr p \<Rightarrow> None)"

section \<open>sendEvent\<close>

text \<open>
  The deferred function of \<open>sendEvent\<close> runs on every way out, also when the function
  panics: it installs a new event, zeroes the two line counters and sets the state the
  caller asked for.
\<close>

definition reset :: "bool \<Rightarrow> bool \<Rightarrow> 'f SlowLogParser \<Rightarrow> 'f SlowLogParser" where
  "reset inHeader' inQuery' p =
     p\<lparr> event := NewEvent (), headerLines := 0, queryLines := 0,
        inHeader := inHeader', inQuery := inQuery' \<rparr>"

definition sendEvent :: "'f SlowLogParser \<Rightarrow> bool \<Rightarrow> bool \<Rightarrow> 'f result" where
  "sendEvent p inHeader' inQuery' =
     (if TimeMetrics (event p) ''Query_time'' = None then
        (if headerLines p = 0 then Inl (PanicNoQueryTime, reset inHeader' inQuery' p)
         else Inr (reset inHeader' inQuery' p))
      else
        let ev = (event p)\<lparr> Db := TrimSuffix (Db (event p)) ('';'' @ [newline]) \<rparr>;
            ev = ev\<lparr> Query := TrimSuffix (Query ev) '';'' \<rparr>
        in if stopSignal p then
             Inr (reset inHeader' inQuery'
                    (p\<lparr> event := ev, stopChan := tl (stopChan p), stopped := True \<rparr>))
           else
             Inr (reset inHeader' inQuery'
                    (p\<lparr> event := ev, stopChan := tl (stopChan p),
                       eventChan := eventChan p @ [ev] \<rparr>)))"

section \<open>parseAdmin\<close>

definition parseAdmin :: "Options \<Rightarrow> 'f SlowLogParser \<Rightarrow> string \<Rightarrow> 'f result" where
  "parseAdmin opt p line =
     (let p = p\<lparr> event := (event p)\<lparr> Admin := True \<rparr> \<rparr>
      in case adminRe_FindStringSubmatch line of
           None \<Rightarrow> Inl (PanicIndexOutOfRange, p)
         | Some cmd \<Rightarrow>
             let p = p\<lparr> event := (event p)\<lparr> Query := cmd \<rparr> \<rparr>;
                 p = p\<lparr> event := (event p)\<lparr> Query := TrimSuffix (Query (event p)) '';'' \<rparr> \<rparr>
             in if \<not> filtered opt (Query (event p)) then sendEvent p False False
                else Inr (p\<lparr> inHeader := False, inQuery := False \<rparr>))"

section \<open>parseHeader and parseQuery\<close>

text \<open>
  One \<open>name: value\<close> pair of a metrics line; \<open>pf\<close> stands for
  \<open>float32(strconv.ParseFloat(tok, 32))\<close> with the error dropped, and \<open>byte(val)\<close>
  keeps the low 8 bits.
\<close>

definition parseMetric :: "(string \<Rightarrow> 'f) \<Rightarrow> 'f Event \<Rightarrow> string \<times> string \<Rightarrow> 'f Event" where
  "parseMetric pf ev smv =
     (case smv of (name, tok) \<Rightarrow>
        if HasSuffix name ''_time'' \<or> HasSuffix name ''_wait'' then
          ev\<lparr> TimeMetrics := (TimeMetrics ev)(name \<mapsto> pf tok) \<rparr>
        else if tok = ''Yes'' \<or> tok = ''No'' then
          (if tok = ''Yes'' then ev\<lparr> BoolMetrics := (BoolMetrics ev)(name \<mapsto> True) \<rparr>
           else ev\<lparr> BoolMetrics := (BoolMetrics ev)(name \<mapsto> False) \<rparr>)
        else if name = ''Schema'' then ev\<lparr> Db := tok \<rparr>
        else if name = ''Log_slow_rate_type'' then ev\<lparr> RateType := tok \<rparr>
        else if name = ''Log_slow_rate_limit'' then
          ev\<lparr> RateLimit := ucast (fst (ParseUint tok)) \<rparr>
        else ev\<lparr> NumberMetrics := (NumberMetrics ev)(name \<mapsto> fst (ParseUint tok)) \<rparr>)"

function parseHeader :: "(string \<Rightarrow> 'f) \<Rightarrow> Options \<Rightarrow> 'f SlowLogParser \<Rightarrow> string \<Rightarrow> 'f result"
  and parseQuery :: "(string \<Rightarrow> 'f) \<Rightarrow> Options \<Rightarrow> 'f SlowLogParser \<Rightarrow> string \<Rightarrow> 'f result"
where
  "parseHeader pf opt p line =
     (if \<not> headerRe_MatchString line then
        parseQuery pf opt (p\<lparr> inHeader := False, inQuery := True \<rparr>) line
      else
        let p = (if headerLines p = 0 then p\<lparr> event := (event p)\<lparr> Offset := lineOffset p \<rparr> \<rparr>
                 else p);
            p = p\<lparr> headerLines := headerLines p + 1 \<rparr>
        in if HasPrefix line ''# Time'' then
             (case timeRe_FindStringSubmatch line of
                None \<Rightarrow> Inl (PanicIndexOutOfRange, p)
              | Some ts \<Rightarrow>
                  let p = p\<lparr> event := (event p)\<lparr> Ts := ts \<rparr> \<rparr>
                  in if userRe_MatchString line then
                       (case userRe_FindStringSubmatch line of
                          None \<Rightarrow> Inl (PanicIndexOutOfRange, p)
                        | Some (u, h) \<Rightarrow> Inr (p\<lparr> event := (event p)\<lparr> User := u, Host := h \<rparr> \<rparr>))
                     else Inr p)
           else if HasPrefix line ''# User'' then
             (case userRe_FindStringSubmatch line of
                None \<Rightarrow> Inl (PanicIndexOutOfRange, p)
              | Some (u, h) \<Rightarrow> Inr (p\<lparr> event := (event p)\<lparr> User := u, Host := h \<rparr> \<rparr>))
           else if HasPrefix line ''# admin'' then parseAdmin opt p line
           else
             Inr (p\<lparr> event := foldl (parseMetric pf) (event p)
                                  (metricsRe_FindAllStringSubmatch line) \<rparr>))"
| "parseQuery pf opt p line =
     (if HasPrefix line ''# admin'' then parseAdmin opt p line
      else if headerRe_MatchString line then
        (case sendEvent (p\<lparr> inHeader := True, inQuery := False \<rparr>) True False of
           Inl e \<Rightarrow> Inl e
         | Inr p' \<Rightarrow> parseHeader pf opt p' line)
      else if queryLines p = 0 \<and> HasPrefix line ''use '' then
        (let db = TrimPrefix line ''use '';
             db = TrimRight db '';''
         in Inr (p\<lparr> event := (event p)\<lparr> Db := db \<rparr> \<rparr>))
      else if setRe_MatchString line then Inr p
      else
        (let p = (if queryLines p > 0
                  then p\<lparr> event := (event p)\<lparr> Query := Query (event p) @ [newline] @ line \<rparr> \<rparr>
                  else p\<lparr> event := (event p)\<lparr> Query := line \<rparr> \<rparr>)
         in Inr (p\<lparr> queryLines := queryLines p + 1 \<rparr>)))"
  by pat_completeness auto
termination
  by (relation "measure (\<lambda>x. case x of
                    Inl (pf, opt, p, line) \<Rightarrow> if headerRe_MatchString line then 0 else 2
                  | Inr (pf, opt, p, line) \<Rightarrow> Suc 0)") auto

declare parseHeader.simps [simp del] parseQuery.simps [simp del]

section \<open>Start\<close>

text \<open>
  The file is its contents and a flag: \<open>failing\<close> says that the read which finds no
  further newline fails with an error other than end of file. \<open>ReadString\<close> of
  \<open>bufio\<close> returns the text up to and including the next newline; when there is none it
  returns an error (and the line, a partial one, is dropped by the loop).
\<close>

record Reader =
  unread :: string
  failing :: bool

datatype read_error = EOF | IOError

definition ReadString :: "Reader \<Rightarrow> read_error + string \<times> Reader" where
  "ReadString r =
     (if newline \<in> set (unread r) then
        Inr (takeWhile (\<lambda>c. c \<noteq> newline) (unread r) @ [newline],
             r\<lparr> unread := tl (dropWhile (\<lambda>c. c \<noteq> newline) (unread r)) \<rparr>)
      else Inl (if failing r then IOError else EOF))"

text \<open>The offset of the line just read (lines 123 to 130 of the source).\<close>

definition countLine :: "'f SlowLogParser \<Rightarrow> string \<Rightarrow> 'f SlowLogParser" where
  "countLine p line =
     (let lineLen = (of_nat (length line) :: 64 word);
          p = p\<lparr> bytesRead := bytesRead p + lineLen \<rparr>;
          p = p\<lparr> lineOffset := bytesRead p - lineLen \<rparr>
      in if lineOffset p \<noteq> 0 then p\<lparr> lineOffset := lineOffset p + 1 \<rparr> else p)"

text \<open>The filter of the meta lines (lines 141 to 144 of the source).\<close>

definition isMeta :: "string \<Rightarrow> bool" where
  "isMeta line =
     (let lineLen = length line
      in lineLen \<ge> 20 \<and>
         ((line ! 0 = CHR ''/'' \<and> drop (lineLen - 6) line = ''with:'' @ [newline]) \<or>
          take 5 line = ''Time '' \<or>
          take 4 line = ''Tcp '' \<or>
          take 4 line = ''TCP ''))"

text \<open>The choice of the line's parser (lines 154 to 162 of the source).\<close>

definition dispatch :: "(string \<Rightarrow> 'f) \<Rightarrow> Options \<Rightarrow> 'f SlowLogParser \<Rightarrow> string \<Rightarrow> 'f result" where
  "dispatch pf opt p line =
     (if inHeader p then parseHeader pf opt p line
      else if inQuery p then parseQuery pf opt p line
      else if headerRe_MatchString line then
        parseHeader pf opt (p\<lparr> inHeader := True, inQuery := False \<rparr>) line
      else Inr p)"

function SCANNER_LOOP :: "(string \<Rightarrow> 'f) \<Rightarrow> Options \<Rightarrow> Reader \<Rightarrow> 'f SlowLogParser \<Rightarrow> 'f result" where
  "SCANNER_LOOP pf opt r p =
     (if stopped p then Inr p
      else if stopSignal p
      then Inr (p\<lparr> stopChan := tl (stopChan p), stopped := True \<rparr>)
      else
        let p = p\<lparr> stopChan := tl (stopChan p) \<rparr>
        in (case ReadString r of
              Inl err \<Rightarrow> (if err \<noteq> EOF then Inl (ErrRead, p) else Inr p)
            | Inr (line, r') \<Rightarrow>
                (let p = countLine p line
                 in if isMeta line then SCANNER_LOOP pf opt r' p
                    else
                      (let line = take (length line - 1) line
                       in (case dispatch pf opt p line of
                             Inl e \<Rightarrow> Inl e
                           | Inr p' \<Rightarrow> SCANNER_LOOP pf opt r' p')))))"
  by pat_completeness auto
termination
proof -
  have shorter: "length (unread r') < length (unread r)"
    if a: "ReadString r = Inr (line, r')" for r line r'
  proof -
    from a have m: "newline \<in> set (unread r)"
      by (auto simp: ReadString_def split: if_splits)
    then have ne: "dropWhile (\<lambda>c. c \<noteq> newline) (unread r) \<noteq> []"
      by (auto simp: dropWhile_eq_Nil_conv)
    have "length (dropWhile (\<lambda>c. c \<noteq> newline) (unread r)) \<le> length (unread r)"
      by (rule length_dropWhile_le)
    with ne have "length (tl (dropWhile (\<lambda>c. c \<noteq> newline) (unread r))) < length (unread r)"
      by (cases "dropWhile (\<lambda>c. c \<noteq> newline) (unread r)") auto
    with a m show ?thesis
      by (auto simp: ReadString_def)
  qed
  show ?thesis
    by (relation "measure (\<lambda>(pf, opt, r, p). length (unread r))")
       (auto dest: shorter)
qed

declare SCANNER_LOOP.simps [simp del]

text \<open>
  \<open>Start\<close> seeks to the start offset when it is not zero (a seek to an offset that is
  negative as an \<open>int64\<close> fails; one beyond the end of the file succeeds and the first
  read finds the end of the file), runs the loop, and sends the event in progress when
  the loop was not stopped and query lines are pending. \<open>file\<close> is the whole file, and
  \<open>p\<close> the parser \<open>NewSlowLogParser\<close> made.
\<close>

definition Seek :: "Reader \<Rightarrow> 64 word \<Rightarrow> Reader" where
  "Seek file off = file\<lparr> unread := drop (unat off) (unread file) \<rparr>"

definition Start :: "(string \<Rightarrow> 'f) \<Rightarrow> Options \<Rightarrow> Reader \<Rightarrow> 'f SlowLogParser \<Rightarrow> 'f result" where
  "Start pf opt file p =
     (if StartOffset opt > 0 \<and> sint (StartOffset opt) < 0 then Inl (ErrSeek, p)
      else
        let r = Seek file (StartOffset opt)
        in case SCANNER_LOOP pf opt r p of
             Inl e \<Rightarrow> Inl e
           | Inr p \<Rightarrow>
               if \<not> stopped p \<and> queryLines p > 0 then sendEvent p False False
               else Inr p)"

section \<open>Notions used to state the properties\<close>

text \<open>
  What \<open>parseHeader\<close> does to the state on every header line before it looks at the
  line's contents (lines 189 to 192 of the source): the first header line of an event
  records the offset, and the header line is counted.
\<close>

definition recordHeader :: "'f SlowLogParser \<Rightarrow> 'f SlowLogParser" where
  "recordHeader p =
     (if headerLines p = 0 then p\<lparr> event := (event p)\<lparr> Offset := lineOffset p \<rparr> \<rparr> else p)
       \<lparr> headerLines := headerLines p + 1 \<rparr>"

text \<open>
  The rest of \<open>parseHeader\<close> on a line that matches the header pattern (lines 194 to
  248). Such a line never begins with \<open># admin\<close>, so the branch to \<open>parseAdmin\<close> is not
  among the cases; \<open>parseHeader_header\<close> below proves that \<open>parseHeader\<close> is this
  function after \<open>recordHeader\<close>.
\<close>

definition headerLine :: "(string \<Rightarrow> 'f) \<Rightarrow> Options \<Rightarrow> 'f SlowLogParser \<Rightarrow> string \<Rightarrow> 'f result" where
  "headerLine pf opt p line =
     (if HasPrefix line ''# Time'' then
        (case timeRe_FindStringSubmatch line of
           None \<Rightarrow> Inl (PanicIndexOutOfRange, p)
         | Some ts \<Rightarrow>
             (case userRe_FindStringSubmatch line of
                None \<Rightarrow> Inr (p\<lparr> event := (event p)\<lparr> Ts := ts \<rparr> \<rparr>)
              | Some (u, h) \<Rightarrow> Inr (p\<lparr> event := (event p)\<lparr> Ts := ts, User := u, Host := h \<rparr> \<rparr>)))
      else if HasPrefix line ''# User'' then
        (case userRe_FindStringSubmatch line of
           None \<Rightarrow> Inl (PanicIndexOutOfRange, p)
         | Some (u, h) \<Rightarrow> Inr (p\<lparr> event := (event p)\<lparr> User := u, Host := h \<rparr> \<rparr>))
      else
        Inr (p\<lparr> event := foldl (parseMetric pf) (event p) (metricsRe_FindAllStringSubmatch line) \<rparr>))"

text \<open>
  What \<open>parseQuery\<close> does with a line that is neither an admin command nor a header
  line (lines 270 to 292); \<open>parseQuery_cases\<close> below proves it.
\<close>

definition textLine :: "'f SlowLogParser \<Rightarrow> string \<Rightarrow> 'f SlowLogParser" where
  "textLine p line =
     (if queryLines p = 0 \<and> HasPrefix line ''use '' then
        p\<lparr> event := (event p)\<lparr> Db := TrimRight (TrimPrefix line ''use '') '';'' \<rparr> \<rparr>
      else if setRe_MatchString line then p
      else if queryLines p = 0 then p\<lparr> event := (event p)\<lparr> Query := line \<rparr>, queryLines := 1 \<rparr>
      else p\<lparr> event := (event p)\<lparr> Query := Query (event p) @ [newline] @ line \<rparr>,
             queryLines := queryLines p + 1 \<rparr>)"

text \<open>The clean-up of \<open>sendEvent\<close> (lines 339 and 340).\<close>

definition cleaned :: "'f Event \<Rightarrow> 'f Event" where
  "cleaned ev = ev\<lparr> Db := TrimSuffix (Db ev) ('';'' @ [newline]),
                    Query := TrimSuffix (Query ev) '';'' \<rparr>"

text \<open>One turn of the loop after a line has been read (lines 123 to 162).\<close>

definition body :: "(string \<Rightarrow> 'f) \<Rightarrow> Options \<Rightarrow> 'f SlowLogParser \<Rightarrow> string \<Rightarrow> 'f result" where
  "body pf opt p line =
     (if isMeta line then Inr (countLine p line)
      else dispatch pf opt (countLine p line) (take (length line - 1) line))"

text \<open>Every delivered event has the query duration.\<close>

definition timed :: "'f SlowLogParser \<Rightarrow> bool" where
  "timed p = (\<forall>e \<in> set (eventChan p). TimeMetrics e ''Query_time'' \<noteq> None)"

text \<open>
  Whenever the parser is in header or query state, has counted a query line, or has seen
  the query duration, it has counted a header line.
\<close>

definition started :: "'f SlowLogParser \<Rightarrow> bool" where
  "started p =
     (inHeader p \<or> inQuery p \<or> queryLines p \<noteq> 0 \<or> TimeMetrics (event p) ''Query_time'' \<noteq> None
        \<longrightarrow> headerLines p \<noteq> 0)"

text \<open>
  The offsets delivered so far are in order and none is beyond the offset of the current
  line; the same holds of the offset of the event in progress once a header line has
  recorded it.
\<close>

definition ordered :: "'f SlowLogParser \<Rightarrow> bool" where
  "ordered p =
     (lineOffset p \<le> bytesRead p \<and>
      sorted_wrt (\<le>) (map Offset (eventChan p)) \<and>
      (\<forall>e \<in> set (eventChan p). Offset e \<le> lineOffset p) \<and>
      (headerLines p \<noteq> 0 \<longrightarrow>
         Offset (event p) \<le> lineOffset p \<and> (\<forall>e \<in> set (eventChan p). Offset e \<le> Offset (event p))))"

text \<open>The state right after the reset of \<open>sendEvent\<close>.\<close>

definition fresh :: "'f SlowLogParser \<Rightarrow> bool" where
  "fresh p = (headerLines p = 0 \<and> queryLines p = 0 \<and> TimeMetrics (event p) ''Query_time'' = None)"

text \<open>The two byte counters, which only \<open>countLine\<close> changes.\<close>

definition counters :: "'f SlowLogParser \<Rightarrow> 64 word \<times> 64 word" where
  "counters p = (bytesRead p, lineOffset p)"

text \<open>
  The invariant of the loop: the two properties above, and neither the header line counter
  nor the byte counter can wrap around before the unread text is used up.
\<close>

definition sound :: "Reader \<Rightarrow> 'f SlowLogParser \<Rightarrow> bool" where
  "sound r p =
     (started p \<and> ordered p \<and>
      unat (headerLines p) + length (unread r) < 2 ^ 64 \<and>
      unat (bytesRead p) + length (unread r) < 2 ^ 64)"

text \<open>
  What one line can do to the two channels: nothing, take the stop case without
  delivering, or deliver one event.
\<close>

definition handover :: "'f SlowLogParser \<Rightarrow> 'f SlowLogParser \<Rightarrow> bool" where
  "handover p p' =
     ((stopped p' = stopped p \<and> eventChan p' = eventChan p) \<or>
      (stopSignal p \<and> stopped p' \<and> eventChan p' = eventChan p) \<or>
      (\<not> stopSignal p \<and> stopped p' = stopped p \<and>
       (\<exists>ev. eventChan p' = eventChan p @ [ev])))"

text \<open>
  \<open>strings.Join(ls, "\n")\<close>: the lines in their order with a newline between two of
  them.
\<close>

definition joinLines :: "string list \<Rightarrow> string" where
  "joinLines ls = (case ls of [] \<Rightarrow> [] | l # ls' \<Rightarrow> foldl (\<lambda>q l'. q @ [newline] @ l') l ls')"

text \<open>
  A line of query text, as it stands in the file before its newline: it is not one of the
  meta lines, not an admin command, not a header line and not one of the \<open>SET\<close> lines
  that \<open>parseQuery\<close> ignores.
\<close>

definition queryText :: "string \<Rightarrow> bool" where
  "queryText l =
     (newline \<notin> set l \<and> \<not> isMeta (l @ [newline]) \<and> \<not> HasPrefix l ''# admin'' \<and>
      \<not> headerRe_MatchString l \<and> \<not> setRe_MatchString l)"

text \<open>
  The value of a string of decimal digits read after a number \<open>n\<close>: \<open>decimal 0 cs\<close> is
  the number that the digits \<open>cs\<close> write.
\<close>

definition digitVal :: "char \<Rightarrow> nat" where
  "digitVal c = of_char c - 48"

definition decimal :: "nat \<Rightarrow> string \<Rightarrow> nat" where
  "decimal n cs = foldl (\<lambda>n c. 10 * n + digitVal c) n cs"

text \<open>
  The offsets of the first lines of the header blocks among the lines \<open>ls\<close> read from
  byte \<open>b\<close>, in the words of the specification. \<open>blockScan\<close> passes one line, as it was
  read with its newline: the offset of the line is the number of bytes before it (which
  starts at the start offset), plus one when that number is not zero; meta lines are
  passed over; a header block begins at a header line that does not follow another header
  line (\<open>inBlock\<close> says that the last line before, meta lines apart, was a header line),
  and that line is the first header line of the event of the block.
\<close>

definition blockScan :: "bool \<times> 64 word \<times> 64 word list \<Rightarrow> string \<Rightarrow> bool \<times> 64 word \<times> 64 word list" where
  "blockScan s line =
     (case s of (inBlock, b, starts) \<Rightarrow>
        let off = (if b = 0 then 0 else b + 1);
            b' = b + of_nat (length line);
            l = take (length line - 1) line
        in if isMeta line then (inBlock, b', starts)
           else if headerRe_MatchString l
           then (True, b', if inBlock then starts else starts @ [off])
           else (False, b', starts))"









text \<open>
  Inputs for the examples: options without a start offset and without filtered commands,
  the file made of given lines, and a run of \<open>Start\<close>, or of its loop alone, on such a
  file with a new parser, where a \<open>float32\<close> is kept as the token it was parsed from.
\<close>

definition opts0 :: Options where
  "opts0 = \<lparr> StartOffset = 0, FilterAdminCommand = Map.empty \<rparr>"

definition log_of :: "string list \<Rightarrow> Reader" where
  "log_of ls = \<lparr> unread = concat (map (\<lambda>l. l @ [newline]) ls), failing = False \<rparr>"

definition parse_log :: "Options \<Rightarrow> bool list \<Rightarrow> string list \<Rightarrow> string result" where
  "parse_log opt sig ls = Start id opt (log_of ls) (NewSlowLogParser opt sig)"

definition scan_log :: "Options \<Rightarrow> bool list \<Rightarrow> string list \<Rightarrow> string result" where
  "scan_log opt sig ls =
     SCANNER_LOOP id opt (Seek (log_of ls) (StartOffset opt)) (NewSlowLogParser opt sig)"

text \<open>
  A state in the middle of a query: the header and one query line have been read, and the
  stop signal is about to be taken.
\<close>

definition mid_query :: "string SlowLogParser" where
  "mid_query =
     (state_of (scan_log opts0 [] [''# Query_time: 1'', ''SELECT 1'']))\<lparr> stopChan := [True] \<rparr>"

text \<open>
  Two more states of a run: after a header line with the query duration, and at the start
  of the query body (after a schema switch, which is not counted as a query line).
\<close>

definition header_seen :: "string SlowLogParser" where
  "header_seen = state_of (scan_log opts0 [] [''# Query_time: 1''])"

definition query_start :: "string SlowLogParser" where
  "query_start = state_of (scan_log opts0 [] [''# Query_time: 1'', ''use test;''])"





section \<open>Facts about the string functions and the header pattern\<close>

lemma HasPrefix_Cons [simp]: "HasPrefix (c # s) (d # w) = (c = d \<and> HasPrefix s w)"
  by (auto simp: HasPrefix_def)

lemma HasPrefix_Nil [simp]: "HasPrefix s [] = True" "HasPrefix [] (d # w) = False"
  by (auto simp: HasPrefix_def)

lemma HasPrefixD: "HasPrefix s w \<Longrightarrow> s = w @ drop (length w) s"
  by (metis HasPrefix_def append_take_drop_id)

lemma upper_not_space: "is_upper c \<Longrightarrow> \<not> is_space c"
  by (auto simp: is_upper_def is_space_def)

lemma headerRe_hash_space_upper:
  "is_upper c \<Longrightarrow> headerRe_MatchString (CHR ''#'' # CHR '' '' # c # rest)"
proof -
  assume u: "is_upper c"
  have sp: "is_space (CHR '' '')" by (simp add: is_space_def)
  from u have ns: "\<not> is_space c" by (rule upper_not_space)
  from u sp ns show ?thesis
    by (simp add: headerRe_MatchString_def seq_def lit_def greedy_def greedy_upto_def run_def cut_def)
qed

lemma headerRe_hash_space_other:
  "\<not> is_upper c \<Longrightarrow> \<not> is_space c \<Longrightarrow> \<not> headerRe_MatchString (CHR ''#'' # CHR '' '' # c # rest)"
proof -
  assume u: "\<not> is_upper c" and ns: "\<not> is_space c"
  have sp: "is_space (CHR '' '')" by (simp add: is_space_def)
  from u sp ns show ?thesis
    by (simp add: headerRe_MatchString_def seq_def lit_def greedy_def greedy_upto_def run_def cut_def)
qed

lemma headerRe_not_hash: "c \<noteq> CHR ''#'' \<Longrightarrow> \<not> headerRe_MatchString (c # rest)"
  by (simp add: headerRe_MatchString_def seq_def lit_def)

lemma headerRe_admin: "HasPrefix line ''# admin'' \<Longrightarrow> \<not> headerRe_MatchString line"
  apply (drule HasPrefixD)
  apply (erule ssubst)
  apply (simp add: headerRe_hash_space_other is_upper_def is_space_def)
  done

lemma headerRe_Time: "HasPrefix line ''# Time'' \<Longrightarrow> headerRe_MatchString line"
  apply (drule HasPrefixD)
  apply (erule ssubst)
  apply (simp add: headerRe_hash_space_upper is_upper_def)
  done

lemma headerRe_User: "HasPrefix line ''# User'' \<Longrightarrow> headerRe_MatchString line"
  apply (drule HasPrefixD)
  apply (erule ssubst)
  apply (simp add: headerRe_hash_space_upper is_upper_def)
  done

lemma headerRe_use: "HasPrefix line ''use '' \<Longrightarrow> \<not> headerRe_MatchString line"
  apply (drule HasPrefixD)
  apply (erule ssubst)
  apply (simp add: headerRe_not_hash)
  done

lemma User_not_Time: "HasPrefix line ''# User'' \<Longrightarrow> \<not> HasPrefix line ''# Time''"
  by (drule HasPrefixD, erule ssubst) simp

lemma use_not_admin: "HasPrefix line ''use '' \<Longrightarrow> \<not> HasPrefix line ''# admin''"
  by (drule HasPrefixD, erule ssubst) simp

text \<open>A match of the metrics pattern is never empty.\<close>

lemma metricsRe_shorter:
  assumes "(smv, r) \<in> set (metricsRe s)"
  shows "length r < length s"
proof -
  from assms obtain k r0 r1 where k: "1 \<le> k" "k \<le> run is_word s" and r0: "r0 = drop k s"
    and r1: "r1 = drop 2 r0" and r: "length r \<le> length r1"
    by (auto simp: metricsRe_def greedy_def lit_def alt_def end_of_text_def cut_def
             split: if_splits)
  have "run is_word s \<le> length s"
    by (simp add: run_def length_takeWhile_le)
  with k r0 r1 r show ?thesis by simp
qed


section \<open>The two line parsers, case by case\<close>

lemma parseHeader_body:
  "\<not> headerRe_MatchString line \<Longrightarrow>
     parseHeader pf opt p line = parseQuery pf opt (p\<lparr> inHeader := False, inQuery := True \<rparr>) line"
  by (subst parseHeader.simps) simp

lemma parseHeader_Time_nil:
  "HasPrefix line ''# Time'' \<Longrightarrow> timeRe_FindStringSubmatch line = None \<Longrightarrow>
     parseHeader pf opt p line = Inl (PanicIndexOutOfRange, recordHeader p)"
  by (subst parseHeader.simps) (simp add: headerRe_Time recordHeader_def Let_def)

lemma parseHeader_User_nil:
  "HasPrefix line ''# User'' \<Longrightarrow> userRe_FindStringSubmatch line = None \<Longrightarrow>
     parseHeader pf opt p line = Inl (PanicIndexOutOfRange, recordHeader p)"
  by (subst parseHeader.simps) (simp add: headerRe_User User_not_Time recordHeader_def Let_def)

section \<open>sendEvent and parseAdmin, case by case\<close>

lemma sendEvent_no_duration:
  "TimeMetrics (event p) ''Query_time'' = None \<Longrightarrow>
     sendEvent p h q =
       (if headerLines p = 0 then Inl (PanicNoQueryTime, reset h q p) else Inr (reset h q p))"
  by (simp add: sendEvent_def)

lemma sendEvent_duration:
  "TimeMetrics (event p) ''Query_time'' \<noteq> None \<Longrightarrow>
     sendEvent p h q =
       (if stopSignal p then Inr (reset h q (p\<lparr> stopChan := tl (stopChan p), stopped := True \<rparr>))
        else Inr (reset h q (p\<lparr> stopChan := tl (stopChan p),
                               eventChan := eventChan p @ [cleaned (event p)] \<rparr>)))"
  by (auto simp: sendEvent_def reset_def cleaned_def Let_def)

lemma parseAdmin_match:
  "adminRe_FindStringSubmatch line = Some cmd \<Longrightarrow>
     parseAdmin opt p line =
       (if filtered opt (TrimSuffix cmd '';'')
        then Inr (p\<lparr> event := (event p)\<lparr> Admin := True, Query := TrimSuffix cmd '';'' \<rparr>,
                    inHeader := False, inQuery := False \<rparr>)
        else sendEvent (p\<lparr> event := (event p)\<lparr> Admin := True, Query := TrimSuffix cmd '';'' \<rparr> \<rparr>)
               False False)"
  by (simp add: parseAdmin_def Let_def)

lemma parseQuery_admin:
  "HasPrefix line ''# admin'' \<Longrightarrow> parseQuery pf opt p line = parseAdmin opt p line"
  by (subst parseQuery.simps) simp

lemma parseQuery_use:
  "HasPrefix line ''use '' \<Longrightarrow> queryLines p = 0 \<Longrightarrow>
     parseQuery pf opt p line =
       Inr (p\<lparr> event := (event p)\<lparr> Db := TrimRight (TrimPrefix line ''use '') '';'' \<rparr> \<rparr>)"
  by (subst parseQuery.simps)
     (simp add: use_not_admin headerRe_use Let_def)

lemma parseQuery_text:
  "\<not> HasPrefix line ''# admin'' \<Longrightarrow> \<not> headerRe_MatchString line \<Longrightarrow>
   \<not> (queryLines p = 0 \<and> HasPrefix line ''use '') \<Longrightarrow>
     parseQuery pf opt p line =
       (if setRe_MatchString line then Inr p
        else if queryLines p = 0
        then Inr (p\<lparr> event := (event p)\<lparr> Query := line \<rparr>, queryLines := 1 \<rparr>)
        else Inr (p\<lparr> event := (event p)\<lparr> Query := Query (event p) @ [newline] @ line \<rparr>,
                    queryLines := queryLines p + 1 \<rparr>))"
  by (subst parseQuery.simps) (auto simp: Let_def word_greater_zero_iff)

lemma parseHeader_header:
  "headerRe_MatchString line \<Longrightarrow>
     parseHeader pf opt p line = headerLine pf opt (recordHeader p) line"
proof -
  assume h: "headerRe_MatchString line"
  then have na: "\<not> HasPrefix line ''# admin''"
    using headerRe_admin by blast
  from h na show ?thesis
    by (subst parseHeader.simps)
       (auto simp: headerLine_def recordHeader_def Let_def userRe_MatchString_def
             split: option.splits)
qed

lemma parseQuery_header:
  "\<not> HasPrefix line ''# admin'' \<Longrightarrow> headerRe_MatchString line \<Longrightarrow>
     parseQuery pf opt p line =
       (case sendEvent (p\<lparr> inHeader := True, inQuery := False \<rparr>) True False of
          Inl e \<Rightarrow> Inl e
        | Inr p' \<Rightarrow> headerLine pf opt (recordHeader p') line)"
  by (subst parseQuery.simps) (simp add: parseHeader_header split: sum.splits)

lemma ReadString_Inr:
  "ReadString r = Inr (line, r') \<Longrightarrow> unread r = line @ unread r' \<and> line \<noteq> []"
proof -
  assume a: "ReadString r = Inr (line, r')"
  let ?u = "unread r"
  from a have m: "newline \<in> set ?u"
    by (auto simp: ReadString_def split: if_splits)
  then have ne: "dropWhile (\<lambda>c. c \<noteq> newline) ?u \<noteq> []"
    by (auto simp: dropWhile_eq_Nil_conv)
  then have hd: "hd (dropWhile (\<lambda>c. c \<noteq> newline) ?u) = newline"
    using hd_dropWhile[of "\<lambda>c. c \<noteq> newline" ?u] by simp
  have "?u = takeWhile (\<lambda>c. c \<noteq> newline) ?u @ dropWhile (\<lambda>c. c \<noteq> newline) ?u"
    by simp
  also have "dropWhile (\<lambda>c. c \<noteq> newline) ?u = newline # tl (dropWhile (\<lambda>c. c \<noteq> newline) ?u)"
    using ne hd by (cases "dropWhile (\<lambda>c. c \<noteq> newline) ?u") auto
  finally have "?u = (takeWhile (\<lambda>c. c \<noteq> newline) ?u @ [newline]) @ tl (dropWhile (\<lambda>c. c \<noteq> newline) ?u)"
    by simp
  with a m show ?thesis
    by (auto simp: ReadString_def)
qed

lemma ReadString_shorter:
  "ReadString r = Inr (line, r') \<Longrightarrow> length (unread r') < length (unread r)"
  by (drule ReadString_Inr) (cases line, auto)

lemma SCANNER_LOOP_unfold:
  "SCANNER_LOOP pf opt r p =
     (if stopped p then Inr p
      else if stopSignal p then Inr (p\<lparr> stopChan := tl (stopChan p), stopped := True \<rparr>)
      else
        (case ReadString r of
           Inl err \<Rightarrow> (if err \<noteq> EOF then Inl (ErrRead, p\<lparr> stopChan := tl (stopChan p) \<rparr>)
                       else Inr (p\<lparr> stopChan := tl (stopChan p) \<rparr>))
         | Inr (line, r') \<Rightarrow>
             (case body pf opt (p\<lparr> stopChan := tl (stopChan p) \<rparr>) line of
                Inl e \<Rightarrow> Inl e
              | Inr p' \<Rightarrow> SCANNER_LOOP pf opt r' p')))"
  by (subst SCANNER_LOOP.simps) (simp add: body_def Let_def split: sum.splits)

lemma loop_invariant:
  assumes init: "I r p"
    and poll: "\<And>r p. I r p \<Longrightarrow> \<not> stopped p \<Longrightarrow>
                 I r (p\<lparr> stopChan := tl (stopChan p) \<rparr>) \<and>
                 I r (p\<lparr> stopChan := tl (stopChan p), stopped := True \<rparr>)"
    and step: "\<And>r p line r'. I r p \<Longrightarrow> ReadString r = Inr (line, r') \<Longrightarrow>
                 (case body pf opt p line of Inl (f, p') \<Rightarrow> F f p' | Inr p' \<Rightarrow> I r' p')"
    and fin: "\<And>r p. I r p \<Longrightarrow> E p"
    and err: "\<And>r p. I r p \<Longrightarrow> F ErrRead p"
  shows "case SCANNER_LOOP pf opt r p of Inl (f, p') \<Rightarrow> F f p' | Inr p' \<Rightarrow> E p'"
  using init
proof (induction "length (unread r)" arbitrary: r p rule: less_induct)
  case less
  note Irp = less.prems
  show ?case
  proof (cases "stopped p")
    case True
    with Irp fin show ?thesis
      by (subst SCANNER_LOOP_unfold) simp
  next
    case ns: False
    show ?thesis
    proof (cases "stopSignal p")
      case True
      have "E (p\<lparr> stopChan := tl (stopChan p), stopped := True \<rparr>)"
        using Irp poll ns fin by blast
      with ns True show ?thesis
        by (subst SCANNER_LOOP_unfold) simp
    next
      case nsig: False
      let ?p = "p\<lparr> stopChan := tl (stopChan p) \<rparr>"
      have Ip: "I r ?p" using Irp poll ns by blast
      show ?thesis
      proof (cases "ReadString r")
        case (Inl e)
        have "E ?p" "F ErrRead ?p" using Ip fin err by blast+
        with ns nsig Inl show ?thesis
          by (subst SCANNER_LOOP_unfold) simp
      next
        case (Inr lr)
        obtain line r' where lr: "lr = (line, r')" by (cases lr)
        note rd = Inr[unfolded lr]
        have st: "case body pf opt ?p line of Inl (f, p') \<Rightarrow> F f p' | Inr p' \<Rightarrow> I r' p'"
          using step[OF Ip rd] .
        show ?thesis
        proof (cases "body pf opt ?p line")
          case (Inl e)
          with st ns nsig rd show ?thesis
            by (subst SCANNER_LOOP_unfold) (simp split: prod.splits)
        next
          case bInr: (Inr p')
          with st have Ip': "I r' p'" by simp
          have "case SCANNER_LOOP pf opt r' p' of Inl (f, p') \<Rightarrow> F f p' | Inr p' \<Rightarrow> E p'"
            using less.hyps[OF ReadString_shorter[OF rd] Ip'] .
          with bInr ns nsig rd show ?thesis
            by (subst SCANNER_LOOP_unfold) simp
        qed
      qed
    qed
  qed
qed

lemma parseQuery_cases:
  "parseQuery pf opt p line =
     (if HasPrefix line ''# admin'' then parseAdmin opt p line
      else if headerRe_MatchString line then
        (case sendEvent (p\<lparr> inHeader := True, inQuery := False \<rparr>) True False of
           Inl e \<Rightarrow> Inl e
         | Inr p' \<Rightarrow> headerLine pf opt (recordHeader p') line)
      else Inr (textLine p line))"
  by (subst parseQuery.simps)
     (auto simp: parseHeader_header textLine_def Let_def word_greater_zero_iff split: sum.splits)

lemma parseHeader_cases:
  "parseHeader pf opt p line =
     (if headerRe_MatchString line then headerLine pf opt (recordHeader p) line
      else if HasPrefix line ''# admin''
      then parseAdmin opt (p\<lparr> inHeader := False, inQuery := True \<rparr>) line
      else Inr (textLine (p\<lparr> inHeader := False, inQuery := True \<rparr>) line))"
  by (simp add: parseHeader_header parseHeader_body parseQuery_cases)

lemma dispatch_cases:
  "dispatch pf opt p line =
     (if inHeader p then parseHeader pf opt p line
      else if inQuery p then parseQuery pf opt p line
      else if headerRe_MatchString line
      then headerLine pf opt (recordHeader (p\<lparr> inHeader := True, inQuery := False \<rparr>)) line
      else Inr p)"
  by (simp add: dispatch_def parseHeader_header)

subsection \<open>What each part leaves unchanged\<close>

lemma Offset_parseMetric: "Offset (parseMetric pf ev smv) = Offset ev"
  by (cases smv) (simp add: parseMetric_def)

lemma Offset_foldl_parseMetric: "Offset (foldl (parseMetric pf) ev xs) = Offset ev"
  by (induction xs arbitrary: ev) (simp_all add: Offset_parseMetric)

lemma headerLine_Inl:
  "headerLine pf opt p line = Inl (f, p') \<Longrightarrow> f = PanicIndexOutOfRange \<and> p' = p"
  by (auto simp: headerLine_def split: if_splits option.splits)

lemma headerLine_Inr:
  "headerLine pf opt p line = Inr p' \<Longrightarrow>
     \<exists>ev. p' = p\<lparr> event := ev \<rparr> \<and> Offset ev = Offset (event p)"
  by (auto simp: headerLine_def Offset_foldl_parseMetric split: if_splits option.splits)

subsection \<open>Delivered events carry the query duration\<close>

lemma timed_sendEvent: "timed p \<Longrightarrow> timed (state_of (sendEvent p h q))"
  by (auto simp: timed_def sendEvent_def state_of_def reset_def Let_def)

lemma timed_parseAdmin: "timed p \<Longrightarrow> timed (state_of (parseAdmin opt p line))"
proof -
  assume t: "timed p"
  have e: "timed (p\<lparr> event := ev \<rparr>)" for ev using t by (simp add: timed_def)
  show ?thesis
  proof (cases "adminRe_FindStringSubmatch line")
    case None
    then show ?thesis by (simp add: parseAdmin_def state_of_def e)
  next
    case (Some cmd)
    show ?thesis
      using timed_sendEvent[OF e] e
      by (simp add: parseAdmin_match[OF Some] state_of_def timed_def)
  qed
qed

lemma timed_headerLine: "timed p \<Longrightarrow> timed (state_of (headerLine pf opt p line))"
  by (cases "headerLine pf opt p line")
     (auto simp: state_of_def timed_def dest!: headerLine_Inl headerLine_Inr)

lemma timed_recordHeader: "timed p \<Longrightarrow> timed (recordHeader p)"
  by (simp add: timed_def recordHeader_def)

lemma timed_textLine: "timed p \<Longrightarrow> timed (textLine p line)"
  by (simp add: timed_def textLine_def)

lemma timed_parseQuery: "timed p \<Longrightarrow> timed (state_of (parseQuery pf opt p line))"
proof -
  assume t: "timed p"
  have f: "timed (p\<lparr> inHeader := True, inQuery := False \<rparr>)" using t by (simp add: timed_def)
  show ?thesis
  proof (cases "sendEvent (p\<lparr> inHeader := True, inQuery := False \<rparr>) True False")
    case (Inl e)
    with timed_sendEvent[OF f, of True False] timed_parseAdmin[OF t] timed_textLine[OF t]
    show ?thesis by (simp add: parseQuery_cases state_of_def)
  next
    case (Inr p')
    with timed_sendEvent[OF f, of True False] have "timed p'" by (simp add: state_of_def)
    then have "timed (state_of (headerLine pf opt (recordHeader p') line))"
      by (intro timed_headerLine timed_recordHeader)
    with Inr timed_parseAdmin[OF t] timed_textLine[OF t]
    show ?thesis by (simp add: parseQuery_cases state_of_def)
  qed
qed

lemma timed_dispatch: "timed p \<Longrightarrow> timed (state_of (dispatch pf opt p line))"
proof -
  assume t: "timed p"
  have f: "timed (p\<lparr> inHeader := a, inQuery := b \<rparr>)" for a b using t by (simp add: timed_def)
  have h: "timed (state_of (headerLine pf opt (recordHeader q) line))" if "timed q" for q
    using that by (intro timed_headerLine timed_recordHeader)
  show ?thesis
    using timed_parseQuery[OF t] timed_parseAdmin[OF f] timed_textLine[OF f] h[OF t] h[OF f] t
    by (simp add: dispatch_cases parseHeader_cases) (simp add: state_of_def)
qed

lemma timed_body: "timed p \<Longrightarrow> timed (state_of (body pf opt p line))"
proof -
  assume t: "timed p"
  have c: "timed (countLine p line)" using t by (simp add: timed_def countLine_def Let_def)
  show ?thesis using timed_dispatch[OF c] c by (simp add: body_def) (simp add: state_of_def)
qed

lemma timed_loop: "timed p \<Longrightarrow> timed (state_of (SCANNER_LOOP pf opt r p))"
proof -
  assume t: "timed p"
  have "case SCANNER_LOOP pf opt r p of Inl (f, p') \<Rightarrow> timed p' | Inr p' \<Rightarrow> timed p'"
  proof (rule loop_invariant[where I = "\<lambda>r p. timed p" and F = "\<lambda>f p. timed p" and E = timed])
    show "timed p" by (rule t)
  next
    fix r :: Reader and p :: "'a SlowLogParser" and line r'
    assume "timed p"
    from timed_body[OF this, of pf opt line]
    show "case body pf opt p line of Inl (f, p') \<Rightarrow> timed p' | Inr p' \<Rightarrow> timed p'"
      by (simp add: state_of_def split: sum.splits prod.splits)
  qed (simp_all add: timed_def)
  then show ?thesis by (simp add: state_of_def split: sum.splits prod.splits)
qed

lemma timed_Start: "timed p \<Longrightarrow> timed (state_of (Start pf opt file p))"
proof -
  assume t: "timed p"
  let ?r = "Seek file (StartOffset opt)"
  show ?thesis
  proof (cases "SCANNER_LOOP pf opt ?r p")
    case (Inl e)
    with timed_loop[OF t, of pf opt ?r] t show ?thesis
      by (simp add: Start_def Let_def) (simp add: state_of_def)
  next
    case (Inr p')
    with timed_loop[OF t, of pf opt ?r] have "timed p'" by (simp add: state_of_def)
    with Inr timed_sendEvent[OF this, of False False] t show ?thesis
      by (simp add: Start_def Let_def) (simp add: state_of_def)
  qed
qed

subsection \<open>Header lines are counted before anything is finalized\<close>

lemma TimeMetrics_NewEvent [simp]: "TimeMetrics (NewEvent ()) k = None"
  by (simp add: NewEvent_def)

lemma sendEvent_started:
  assumes "headerLines p \<noteq> 0" "ordered p"
  shows "\<exists>p'. sendEvent p h q = Inr p' \<and> fresh p' \<and> ordered p' \<and> inHeader p' = h \<and> inQuery p' = q"
proof (cases "TimeMetrics (event p) ''Query_time'' = None")
  case True
  with assms show ?thesis
    by (simp add: sendEvent_no_duration reset_def fresh_def ordered_def)
next
  case False
  with assms show ?thesis
    by (auto simp: sendEvent_duration reset_def fresh_def ordered_def cleaned_def
                   sorted_wrt_append intro: order_trans)
qed

lemma parseAdmin_started:
  assumes "headerLines p \<noteq> 0" "ordered p" "started p"
  shows "case parseAdmin opt p line of
           Inl (f, p') \<Rightarrow> f \<noteq> PanicNoQueryTime \<and> ordered p'
         | Inr p' \<Rightarrow> started p' \<and> ordered p' \<and> (headerLines p' = headerLines p \<or> headerLines p' = 0)"
proof (cases "adminRe_FindStringSubmatch line")
  case None
  with assms show ?thesis
    by (simp add: parseAdmin_def ordered_def)
next
  case (Some cmd)
  let ?q = "p\<lparr> event := (event p)\<lparr> Admin := True, Query := TrimSuffix cmd '';'' \<rparr> \<rparr>"
  have q: "headerLines ?q \<noteq> 0" "ordered ?q"
    using assms by (simp_all add: ordered_def)
  from sendEvent_started[OF q, of False False]
  obtain p' where "sendEvent ?q False False = Inr p'" "fresh p'" "ordered p'"
    "inHeader p' = False" "inQuery p' = False" by blast
  with assms show ?thesis
    by (simp add: parseAdmin_match[OF Some]) (simp add: started_def ordered_def fresh_def)
qed

lemma recordHeader_started:
  assumes "headerLines p + 1 \<noteq> 0" "ordered p"
  shows "headerLines (recordHeader p) \<noteq> 0 \<and> ordered (recordHeader p) \<and> started (recordHeader p)
         \<and> headerLines (recordHeader p) = headerLines p + 1"
  using assms by (auto simp: recordHeader_def ordered_def started_def)

lemma headerLine_started:
  assumes "headerLines p \<noteq> 0" "ordered p"
  shows "case headerLine pf opt p line of
           Inl (f, p') \<Rightarrow> f \<noteq> PanicNoQueryTime \<and> ordered p'
         | Inr p' \<Rightarrow> started p' \<and> ordered p' \<and> headerLines p' = headerLines p"
proof (cases "headerLine pf opt p line")
  case (Inl e)
  obtain f p' where e: "e = (f, p')" by (cases e)
  from headerLine_Inl[OF Inl[unfolded e]] assms Inl e show ?thesis by simp
next
  case (Inr p')
  from headerLine_Inr[OF Inr] obtain ev where "p' = p\<lparr> event := ev \<rparr>" "Offset ev = Offset (event p)"
    by blast
  with assms Inr show ?thesis by (simp add: started_def ordered_def)
qed

lemma textLine_started:
  assumes "headerLines p \<noteq> 0" "ordered p"
  shows "started (textLine p line) \<and> ordered (textLine p line)
         \<and> headerLines (textLine p line) = headerLines p"
  using assms by (simp add: textLine_def started_def ordered_def)

lemma header_after_send:
  assumes "headerLines p \<noteq> 0" "ordered p"
  shows "case (case sendEvent (p\<lparr> inHeader := True, inQuery := False \<rparr>) True False of
                 Inl e \<Rightarrow> Inl e
               | Inr p' \<Rightarrow> headerLine pf opt (recordHeader p') line) of
           Inl (f, p') \<Rightarrow> f \<noteq> PanicNoQueryTime \<and> ordered p'
         | Inr p' \<Rightarrow> started p' \<and> ordered p' \<and> headerLines p' = 1"
proof -
  let ?q = "p\<lparr> inHeader := True, inQuery := False \<rparr>"
  have q: "headerLines ?q \<noteq> 0" "ordered ?q" using assms by (simp_all add: ordered_def)
  from sendEvent_started[OF q, of True False]
  obtain p' where s: "sendEvent ?q True False = Inr p'" and f: "fresh p'" and o: "ordered p'"
    by blast
  from f have "headerLines p' + 1 \<noteq> 0" by (simp add: fresh_def)
  from recordHeader_started[OF this o] f
  have r: "headerLines (recordHeader p') \<noteq> 0" "ordered (recordHeader p')"
    "headerLines (recordHeader p') = 1"
    by (simp_all add: fresh_def)
  from headerLine_started[OF r(1) r(2), of pf opt line] s r(3) show ?thesis
    by (simp split: sum.splits prod.splits)
qed

lemma dispatch_started:
  assumes "started p" "ordered p" "headerLines p + 1 \<noteq> 0"
  shows "case dispatch pf opt p line of
           Inl (f, p') \<Rightarrow> f \<noteq> PanicNoQueryTime \<and> ordered p'
         | Inr p' \<Rightarrow> started p' \<and> ordered p' \<and>
             (headerLines p' = headerLines p \<or> headerLines p' = headerLines p + 1
              \<or> headerLines p' = 0 \<or> headerLines p' = 1)"
proof -
  have flags: "ordered (p\<lparr> inHeader := a, inQuery := b \<rparr>)" for a b
    using assms(2) by (simp add: ordered_def)
  have rec: "case headerLine pf opt (recordHeader q) line of
               Inl (f, p') \<Rightarrow> f \<noteq> PanicNoQueryTime \<and> ordered p'
             | Inr p' \<Rightarrow> started p' \<and> ordered p' \<and> headerLines p' = headerLines q + 1"
    if a: "headerLines q + 1 \<noteq> 0" and b: "ordered q" for q
  proof -
    from recordHeader_started[OF a b]
    have r: "headerLines (recordHeader q) \<noteq> 0" "ordered (recordHeader q)"
      "headerLines (recordHeader q) = headerLines q + 1"
      by blast+
    from headerLine_started[OF r(1) r(2), of pf opt line] r(3) show ?thesis
      by (simp split: sum.splits prod.splits)
  qed
  show ?thesis
  proof (cases "inHeader p \<or> inQuery p")
    case False
    have "headerLines (p\<lparr> inHeader := True, inQuery := False \<rparr>) + 1 \<noteq> 0"
      using assms(3) by simp
    from rec[OF this flags] False assms show ?thesis
      by (simp add: dispatch_cases split: sum.splits prod.splits)
  next
    case True
    with assms(1) have h: "headerLines p \<noteq> 0" by (auto simp: started_def)
    let ?q = "p\<lparr> inHeader := False, inQuery := True \<rparr>"
    have hq: "headerLines ?q \<noteq> 0" "ordered ?q" "started ?q"
      using h flags by (simp_all add: started_def)
    show ?thesis
    proof (cases "inHeader p")
      case True
      with rec[OF assms(3) assms(2)] parseAdmin_started[OF hq, of opt line]
           textLine_started[OF hq(1) hq(2), of line]
      show ?thesis
        by (auto simp: dispatch_cases parseHeader_cases split: sum.splits prod.splits)
    next
      case False
      with \<open>inHeader p \<or> inQuery p\<close> have iq: "inQuery p" by simp
      from False iq header_after_send[OF h assms(2), of pf opt line]
           parseAdmin_started[OF h assms(2) assms(1), of opt line]
           textLine_started[OF h assms(2), of line]
      show ?thesis
        by (auto simp: dispatch_cases parseQuery_cases split: sum.splits prod.splits)
    qed
  qed
qed

subsection \<open>The byte counters\<close>

lemma countLine_fields:
  "bytesRead (countLine p line) = bytesRead p + of_nat (length line)"
  "lineOffset (countLine p line) = (if bytesRead p = 0 then 0 else bytesRead p + 1)"
  "headerLines (countLine p line) = headerLines p"
  "queryLines (countLine p line) = queryLines p"
  "event (countLine p line) = event p"
  "eventChan (countLine p line) = eventChan p"
  "inHeader (countLine p line) = inHeader p"
  "inQuery (countLine p line) = inQuery p"
  "stopped (countLine p line) = stopped p"
  "stopChan (countLine p line) = stopChan p"
  by (simp_all add: countLine_def Let_def)

lemma countLine_ordered:
  assumes o: "ordered p" and n: "line \<noteq> []" and b: "unat (bytesRead p) + length line < 2 ^ 64"
  shows "ordered (countLine p line) \<and>
         unat (bytesRead (countLine p line)) = unat (bytesRead p) + length line"
proof -
  let ?B = "bytesRead p"
  have len: "unat (of_nat (length line) :: 64 word) = length line"
    using b by (simp add: unat_of_nat)
  have u: "unat (?B + of_nat (length line)) = unat ?B + length line"
    using b len by (simp add: unat_add_lem[THEN iffD1])
  have l1: "1 \<le> length line" using n by (cases line) auto
  have one: "unat (?B + 1) = unat ?B + 1"
    using b l1 by (simp add: unat_add_lem[THEN iffD1])
  have le1: "?B \<le> ?B + 1"
    using one by (simp add: word_le_nat_alt)
  have le2: "?B + 1 \<le> ?B + of_nat (length line)"
    using one u l1 by (simp add: word_le_nat_alt)
  have lo: "lineOffset p \<le> ?B" using o by (simp add: ordered_def)
  have up: "x \<le> (if ?B = 0 then 0 else ?B + 1)" if "x \<le> lineOffset p" for x
  proof -
    from that lo have "x \<le> ?B" by (rule order_trans)
    with le1 show ?thesis by (auto intro: order_trans)
  qed
  have "ordered (countLine p line)"
    using o le2 up by (auto simp: ordered_def countLine_fields)
  with u show ?thesis by (simp add: countLine_fields)
qed

subsection \<open>What a line leaves unchanged in the counters\<close>

lemma counters_sendEvent: "counters (state_of (sendEvent p h q)) = counters p"
  by (simp add: sendEvent_def state_of_def reset_def counters_def Let_def)

lemma counters_parseAdmin: "counters (state_of (parseAdmin opt p line)) = counters p"
proof (cases "adminRe_FindStringSubmatch line")
  case None
  then show ?thesis by (simp add: parseAdmin_def state_of_def counters_def)
next
  case (Some cmd)
  show ?thesis
    using counters_sendEvent[of "p\<lparr> event := (event p)\<lparr> Admin := True, Query := TrimSuffix cmd '';'' \<rparr> \<rparr>" False False]
    by (simp add: parseAdmin_match[OF Some]) (simp add: counters_def state_of_def)
qed

lemma counters_headerLine: "counters (state_of (headerLine pf opt p line)) = counters p"
  by (cases "headerLine pf opt p line")
     (auto simp: state_of_def counters_def dest!: headerLine_Inl headerLine_Inr)

lemma counters_recordHeader: "counters (recordHeader p) = counters p"
  by (simp add: counters_def recordHeader_def)

lemma counters_textLine: "counters (textLine p line) = counters p"
  by (simp add: counters_def textLine_def)

lemma counters_parseQuery: "counters (state_of (parseQuery pf opt p line)) = counters p"
proof (cases "sendEvent (p\<lparr> inHeader := True, inQuery := False \<rparr>) True False")
  case (Inl e)
  with counters_sendEvent[of "p\<lparr> inHeader := True, inQuery := False \<rparr>" True False]
       counters_parseAdmin[of opt p line] counters_textLine[of p line]
  show ?thesis by (simp add: parseQuery_cases state_of_def) (simp add: counters_def)
next
  case (Inr p')
  with counters_sendEvent[of "p\<lparr> inHeader := True, inQuery := False \<rparr>" True False]
  have "counters p' = counters p" by (simp add: state_of_def counters_def)
  with counters_headerLine[of pf opt "recordHeader p'" line] counters_recordHeader[of p']
  have "counters (state_of (headerLine pf opt (recordHeader p') line)) = counters p" by simp
  with Inr counters_parseAdmin[of opt p line] counters_textLine[of p line]
  show ?thesis by (simp add: parseQuery_cases state_of_def)
qed

lemma counters_flags [simp]: "counters (p\<lparr> inHeader := a, inQuery := b \<rparr>) = counters p"
  by (simp add: counters_def)

lemma counters_dispatch: "counters (state_of (dispatch pf opt p line)) = counters p"
  using counters_parseQuery[of pf opt p line]
        counters_parseAdmin[of opt "p\<lparr> inHeader := False, inQuery := True \<rparr>" line]
        counters_textLine[of "p\<lparr> inHeader := False, inQuery := True \<rparr>" line]
        counters_headerLine[of pf opt "recordHeader p" line]
        counters_headerLine[of pf opt "recordHeader (p\<lparr> inHeader := True, inQuery := False \<rparr>)" line]
        counters_recordHeader[of p]
        counters_recordHeader[of "p\<lparr> inHeader := True, inQuery := False \<rparr>"]
  by (simp add: dispatch_cases parseHeader_cases) (simp add: state_of_def)

subsection \<open>The invariant of the read loop\<close>

lemma body_sound:
  assumes s: "sound r p" and rd: "ReadString r = Inr (line, r')"
  shows "case body pf opt p line of
           Inl (f, p') \<Rightarrow> f \<noteq> PanicNoQueryTime \<and> ordered p'
         | Inr p' \<Rightarrow> sound r' p'"
proof -
  from ReadString_Inr[OF rd] have u: "unread r = line @ unread r'" and ne: "line \<noteq> []"
    by simp_all
  have l1: "1 \<le> length line" using ne by (cases line) auto
  let ?c = "countLine p line"
  from s u have b: "unat (bytesRead p) + length line < 2 ^ 64"
    by (simp add: sound_def)
  from s have o: "ordered p" and st: "started p" by (simp_all add: sound_def)
  from countLine_ordered[OF o ne b]
  have oc: "ordered ?c" and bc: "unat (bytesRead ?c) = unat (bytesRead p) + length line"
    by simp_all
  have sc: "started ?c" using st by (simp add: started_def countLine_fields)
  have hl: "unat (headerLines p) + 1 < 2 ^ 64"
    using s u l1 by (simp add: sound_def)
  then have hu: "unat (headerLines p + 1) = unat (headerLines p) + 1"
    by (simp add: unat_add_lem[THEN iffD1])
  then have hn: "headerLines ?c + 1 \<noteq> 0"
    by (auto simp: countLine_fields)
  have brc: "unat (bytesRead ?c) + length (unread r') < 2 ^ 64"
    using s u bc by (simp add: sound_def)
  have hlc: "unat (headerLines ?c) + length (unread r') < 2 ^ 64"
    using s u by (simp add: sound_def countLine_fields)
  show ?thesis
  proof (cases "isMeta line")
    case True
    with sc oc brc hlc show ?thesis
      by (simp add: body_def sound_def)
  next
    case False
    let ?l = "take (length line - 1) line"
    have d: "case dispatch pf opt ?c ?l of
               Inl (f, p') \<Rightarrow> f \<noteq> PanicNoQueryTime \<and> ordered p'
             | Inr p' \<Rightarrow> started p' \<and> ordered p' \<and>
                 (headerLines p' = headerLines ?c \<or> headerLines p' = headerLines ?c + 1
                  \<or> headerLines p' = 0 \<or> headerLines p' = 1)"
      by (rule dispatch_started[OF sc oc hn])
    show ?thesis
    proof (cases "dispatch pf opt ?c ?l")
      case (Inl e)
      with d False show ?thesis by (simp add: body_def split: prod.splits)
    next
      case (Inr p')
      with d have sp: "started p'" and op: "ordered p'"
        and h: "headerLines p' = headerLines p \<or> headerLines p' = headerLines p + 1
                \<or> headerLines p' = 0 \<or> headerLines p' = 1"
        by (simp_all add: countLine_fields)
      from h hu have "unat (headerLines p') \<le> unat (headerLines p) + 1"
        by auto
      with s u l1 have hb: "unat (headerLines p') + length (unread r') < 2 ^ 64"
        by (simp add: sound_def)
      from counters_dispatch[of pf opt ?c ?l] Inr have "bytesRead p' = bytesRead ?c"
        by (simp add: counters_def state_of_def)
      with brc have bb: "unat (bytesRead p') + length (unread r') < 2 ^ 64" by simp
      from sp op hb bb Inr False show ?thesis
        by (simp add: body_def sound_def)
    qed
  qed
qed

lemma loop_sound:
  assumes "sound r p"
  shows "case SCANNER_LOOP pf opt r p of
           Inl (f, p') \<Rightarrow> f \<noteq> PanicNoQueryTime \<and> ordered p'
         | Inr p' \<Rightarrow> started p' \<and> ordered p'"
proof (rule loop_invariant[where I = sound])
  show "sound r p" by (rule assms)
next
  fix r :: Reader and p :: "'a SlowLogParser"
  assume "sound r p"
  then show "sound r (p\<lparr> stopChan := tl (stopChan p) \<rparr>) \<and>
             sound r (p\<lparr> stopChan := tl (stopChan p), stopped := True \<rparr>)"
    by (simp add: sound_def started_def ordered_def)
next
  fix r :: Reader and p :: "'a SlowLogParser" and line r'
  assume "sound r p" "ReadString r = Inr (line, r')"
  then show "case body pf opt p line of
               Inl (f, p') \<Rightarrow> f \<noteq> PanicNoQueryTime \<and> ordered p'
             | Inr p' \<Rightarrow> sound r' p'"
    by (rule body_sound)
next
  fix r :: Reader and p :: "'a SlowLogParser"
  assume "sound r p"
  then show "started p \<and> ordered p" by (simp add: sound_def)
next
  fix r :: Reader and p :: "'a SlowLogParser"
  assume "sound r p"
  then show "ErrRead \<noteq> PanicNoQueryTime \<and> ordered p" by (simp add: sound_def)
qed

lemma sound_initial:
  assumes "length (unread file) < 2 ^ 64"
  shows "sound (Seek file (StartOffset opt)) (NewSlowLogParser opt sig)"
proof -
  have "unat (StartOffset opt) < 2 ^ 64"
    using unsigned_less[of "StartOffset opt", where 'a = nat] by simp
  with assms show ?thesis
    by (auto simp: sound_def started_def ordered_def NewSlowLogParser_def Seek_def)
qed

lemma Start_sound:
  assumes "length (unread file) < 2 ^ 64"
  shows "fault_of (Start pf opt file (NewSlowLogParser opt sig)) \<noteq> Some PanicNoQueryTime \<and>
         ordered (state_of (Start pf opt file (NewSlowLogParser opt sig)))"
proof -
  let ?r = "Seek file (StartOffset opt)"
  let ?p = "NewSlowLogParser opt sig :: 'a SlowLogParser"
  have o0: "ordered ?p"
    by (simp add: ordered_def NewSlowLogParser_def)
  have l: "case SCANNER_LOOP pf opt ?r ?p of
             Inl (f, p') \<Rightarrow> f \<noteq> PanicNoQueryTime \<and> ordered p'
           | Inr p' \<Rightarrow> started p' \<and> ordered p'"
    by (rule loop_sound[OF sound_initial[OF assms]])
  show ?thesis
  proof (cases "SCANNER_LOOP pf opt ?r ?p")
    case (Inl e)
    with l o0 show ?thesis
      by (auto simp: Start_def Let_def fault_of_def state_of_def split: prod.splits)
  next
    case (Inr p')
    with l have sp: "started p'" and op: "ordered p'" by simp_all
    show ?thesis
    proof (cases "\<not> stopped p' \<and> queryLines p' > 0")
      case False
      with Inr op o0 show ?thesis
        by (auto simp: Start_def Let_def fault_of_def state_of_def)
    next
      case True
      then have "queryLines p' \<noteq> 0" by auto
      with sp have "headerLines p' \<noteq> 0" by (simp add: started_def)
      from sendEvent_started[OF this op, of False False]
      obtain p'' where "sendEvent p' False False = Inr p''" "ordered p''" by blast
      with Inr True o0 show ?thesis
        by (auto simp: Start_def Let_def fault_of_def state_of_def)
    qed
  qed
qed

subsection \<open>A line hands over at most one event\<close>

lemma handover_sendEvent: "handover p (state_of (sendEvent p h q))"
  by (auto simp: handover_def sendEvent_def state_of_def reset_def Let_def)

lemma handover_parseAdmin: "handover p (state_of (parseAdmin opt p line))"
proof (cases "adminRe_FindStringSubmatch line")
  case None
  then show ?thesis by (simp add: parseAdmin_def state_of_def handover_def)
next
  case (Some cmd)
  show ?thesis
    using handover_sendEvent[of "p\<lparr> event := (event p)\<lparr> Admin := True, Query := TrimSuffix cmd '';'' \<rparr> \<rparr>" False False]
    by (simp add: parseAdmin_match[OF Some]) (simp add: handover_def state_of_def stopSignal_def)
qed

lemma handover_same:
  "handover p q \<Longrightarrow> stopped q' = stopped q \<Longrightarrow> eventChan q' = eventChan q \<Longrightarrow> handover p q'"
  by (simp add: handover_def)

lemma recordHeader_fields:
  "stopped (recordHeader q) = stopped q" "eventChan (recordHeader q) = eventChan q"
  "stopChan (recordHeader q) = stopChan q"
  by (simp_all add: recordHeader_def)

lemma headerLine_fields:
  "stopped (state_of (headerLine pf opt q line)) = stopped q"
  "eventChan (state_of (headerLine pf opt q line)) = eventChan q"
  by (cases "headerLine pf opt q line";
      auto simp: state_of_def dest!: headerLine_Inl headerLine_Inr)+

lemma handover_headerLine:
  "handover p q \<Longrightarrow> handover p (state_of (headerLine pf opt (recordHeader q) line))"
  by (erule handover_same) (simp_all add: headerLine_fields recordHeader_fields)

lemma handover_flags:
  "handover (p\<lparr> inHeader := a, inQuery := b \<rparr>) q = handover p q"
  by (simp add: handover_def stopSignal_def)

lemma handover_refl: "handover p p" "handover p (p\<lparr> inHeader := a, inQuery := b \<rparr>)"
  "handover p (textLine p line)"
  "handover p (textLine (p\<lparr> inHeader := a, inQuery := b \<rparr>) line)"
  by (simp_all add: handover_def textLine_def)

lemma handover_parseQuery: "handover p (state_of (parseQuery pf opt p line))"
proof (cases "sendEvent (p\<lparr> inHeader := True, inQuery := False \<rparr>) True False")
  case (Inl e)
  with handover_sendEvent[of "p\<lparr> inHeader := True, inQuery := False \<rparr>" True False]
       handover_parseAdmin[of p opt line] handover_refl(3)[of p line]
  show ?thesis by (simp add: parseQuery_cases handover_flags) (simp add: state_of_def)
next
  case (Inr p')
  with handover_sendEvent[of "p\<lparr> inHeader := True, inQuery := False \<rparr>" True False]
  have "handover p p'" by (simp add: state_of_def handover_flags)
  from handover_headerLine[OF this, of pf opt line] Inr
       handover_parseAdmin[of p opt line] handover_refl(3)[of p line]
  show ?thesis by (simp add: parseQuery_cases) (simp add: state_of_def)
qed

lemma handover_dispatch: "handover p (state_of (dispatch pf opt p line))"
  using handover_parseQuery[of p pf opt line]
        handover_parseAdmin[of "p\<lparr> inHeader := False, inQuery := True \<rparr>" opt line]
        handover_headerLine[OF handover_refl(1)[of p], of pf opt line]
        handover_headerLine[OF handover_refl(2)[where p = p and a = True and b = False], of pf opt line]
        handover_refl(4)[where p = p and a = False and b = True and line = line]
        handover_refl(1)[of p]
  by (simp add: dispatch_cases parseHeader_cases handover_flags) (simp add: state_of_def)


lemma Inr_state_of: "fault_of res = None \<Longrightarrow> res = Inr (state_of res)"
  by (cases res) (auto simp: fault_of_def state_of_def)

subsection \<open>Reading query text to the end of the file\<close>

lemma ReadString_log_of:
  "newline \<notin> set l \<Longrightarrow> ReadString (log_of (l # ls)) = Inr (l @ [newline], log_of ls)"
proof -
  assume n: "newline \<notin> set l"
  then have t: "takeWhile (\<lambda>c. c \<noteq> newline) (l @ newline # rest) = l" for rest
    by (induction l) auto
  from n have d: "dropWhile (\<lambda>c. c \<noteq> newline) (l @ newline # rest) = newline # rest" for rest
    by (induction l) auto
  show ?thesis
    by (simp add: ReadString_def log_of_def t d)
qed

lemma ReadString_log_of_Nil: "ReadString (log_of []) = Inl EOF"
  by (simp add: ReadString_def log_of_def)

lemma loop_query_text:
  assumes "\<forall>l \<in> set ls. queryText l"
    and "inQuery p" "\<not> inHeader p" "\<not> stopped p" "stopChan p = []"
    and "queryLines p \<noteq> 0"
    and "unat (queryLines p) + length ls < 2 ^ 64"
  shows "\<exists>p'. SCANNER_LOOP pf opt (log_of ls) p = Inr p' \<and>
           event p' = (event p)\<lparr> Query := foldl (\<lambda>q l'. q @ [newline] @ l') (Query (event p)) ls \<rparr> \<and>
           eventChan p' = eventChan p \<and> stopChan p' = [] \<and> \<not> stopped p' \<and>
           queryLines p' = queryLines p + of_nat (length ls) \<and>
           headerLines p' = headerLines p"
  using assms
proof (induction ls arbitrary: p)
  case Nil
  then show ?case
    by (subst SCANNER_LOOP_unfold) (simp add: ReadString_log_of_Nil stopSignal_def)
next
  case (Cons l ls)
  from Cons.prems have qt: "queryText l" by simp
  let ?c = "countLine (p\<lparr> stopChan := tl (stopChan p) \<rparr>) (l @ [newline])"
  let ?p1 = "?c\<lparr> event := (event ?c)\<lparr> Query := Query (event ?c) @ [newline] @ l \<rparr>,
                  queryLines := queryLines ?c + 1 \<rparr>"
  have d: "dispatch pf opt ?c l = Inr ?p1"
    using Cons.prems qt
    by (simp add: dispatch_cases parseQuery_cases queryText_def countLine_fields textLine_def)
  have b: "body pf opt (p\<lparr> stopChan := tl (stopChan p) \<rparr>) (l @ [newline]) = Inr ?p1"
    using qt d by (simp add: body_def queryText_def)
  have u1: "unat (queryLines p + 1) = unat (queryLines p) + 1"
    using Cons.prems by (simp add: unat_add_lem[THEN iffD1])
  then have nz: "queryLines ?p1 \<noteq> 0"
    by (auto simp: countLine_fields)
  have bound: "unat (queryLines ?p1) + length ls < 2 ^ 64"
    using Cons.prems u1 by (simp add: countLine_fields)
  have pre: "\<forall>l \<in> set ls. queryText l" "inQuery ?p1" "\<not> inHeader ?p1" "\<not> stopped ?p1"
    "stopChan ?p1 = []"
    using Cons.prems by (simp_all add: countLine_fields)
  from Cons.IH[OF pre nz bound]
  obtain p' where l: "SCANNER_LOOP pf opt (log_of ls) ?p1 = Inr p'"
    and e: "event p' = (event ?p1)\<lparr> Query := foldl (\<lambda>q l'. q @ [newline] @ l') (Query (event ?p1)) ls \<rparr>"
    and r: "eventChan p' = eventChan ?p1" "stopChan p' = []" "\<not> stopped p'"
      "queryLines p' = queryLines ?p1 + of_nat (length ls)" "headerLines p' = headerLines ?p1"
    by blast
  have "SCANNER_LOOP pf opt (log_of (l # ls)) p = Inr p'"
    using Cons.prems qt b l
    by (subst SCANNER_LOOP_unfold)
       (simp add: ReadString_log_of queryText_def stopSignal_def)
  with e r show ?case
    by (simp add: countLine_fields)
qed

lemma HasSuffix_set: "HasSuffix s suf \<Longrightarrow> set suf \<subseteq> set s"
  by (metis HasSuffix_def set_drop_subset)

lemma TrimSuffix_no_newline:
  "newline \<notin> set s \<Longrightarrow> TrimSuffix s ('';'' @ [newline]) = s"
  using HasSuffix_set[of s "'';'' @ [newline]"] by (auto simp: TrimSuffix_def)

lemma Start_query_text:
  assumes st: "inQuery p" "\<not> inHeader p" "\<not> stopped p" "stopChan p = []" "queryLines p = 0"
    and tm: "TimeMetrics (event p) ''Query_time'' \<noteq> None"
    and off: "StartOffset opt = 0"
    and ls: "ls \<noteq> []" "\<forall>l \<in> set ls. queryText l" "\<not> HasPrefix (hd ls) ''use ''"
      "length ls < 2 ^ 64"
  shows "\<exists>p'. Start pf opt (log_of ls) p = Inr p' \<and>
           eventChan p' = eventChan p @ [cleaned ((event p)\<lparr> Query := joinLines ls \<rparr>)]"
proof -
  from ls(1) obtain l rest where lr: "ls = l # rest" by (cases ls) auto
  with ls have qt: "queryText l" and nu: "\<not> HasPrefix l ''use ''"
    and qr: "\<forall>l \<in> set rest. queryText l" and len: "1 + length rest < 2 ^ 64"
    by simp_all
  let ?c = "countLine (p\<lparr> stopChan := tl (stopChan p) \<rparr>) (l @ [newline])"
  let ?p1 = "?c\<lparr> event := (event ?c)\<lparr> Query := l \<rparr>, queryLines := 1 \<rparr>"
  have d: "dispatch pf opt ?c l = Inr ?p1"
    using st qt nu
    by (simp add: dispatch_cases parseQuery_cases queryText_def countLine_fields textLine_def)
  have b: "body pf opt (p\<lparr> stopChan := tl (stopChan p) \<rparr>) (l @ [newline]) = Inr ?p1"
    using qt d by (simp add: body_def queryText_def)
  have pre: "inQuery ?p1" "\<not> inHeader ?p1" "\<not> stopped ?p1" "stopChan ?p1 = []" "queryLines ?p1 \<noteq> 0"
    using st by (simp_all add: countLine_fields)
  have bound: "unat (queryLines ?p1) + length rest < 2 ^ 64"
    using len by simp
  from loop_query_text[OF qr pre bound, of pf opt]
  obtain p' where l: "SCANNER_LOOP pf opt (log_of rest) ?p1 = Inr p'"
    and e: "event p' = (event ?p1)\<lparr> Query := foldl (\<lambda>q l'. q @ [newline] @ l') (Query (event ?p1)) rest \<rparr>"
    and r: "eventChan p' = eventChan ?p1" "stopChan p' = []" "\<not> stopped p'"
      "queryLines p' = queryLines ?p1 + of_nat (length rest)"
    by blast
  have loop: "SCANNER_LOOP pf opt (log_of ls) p = Inr p'"
    using st qt b l unfolding lr
    by (subst SCANNER_LOOP_unfold)
       (simp add: ReadString_log_of queryText_def stopSignal_def)
  have ev: "event p' = (event p)\<lparr> Query := joinLines ls \<rparr>"
    using e by (simp add: lr joinLines_def countLine_fields)
  have "unat (1 + of_nat (length rest) :: 64 word) = 1 + length rest"
    using len by (simp add: unat_add_lem[THEN iffD1] unat_of_nat)
  then have "(1 + of_nat (length rest) :: 64 word) \<noteq> 0"
    by auto
  with r have qn: "queryLines p' > 0"
    by (simp add: word_greater_zero_iff)
  have tm': "TimeMetrics (event p') ''Query_time'' \<noteq> None"
    using tm ev by simp
  have ns: "\<not> stopSignal p'" using r by (simp add: stopSignal_def)
  have sk: "Seek (log_of ls) 0 = log_of ls"
    by (simp add: Seek_def)
  have "Start pf opt (log_of ls) p =
          Inr (reset False False (p'\<lparr> stopChan := tl (stopChan p'),
                                       eventChan := eventChan p' @ [cleaned (event p')] \<rparr>))"
    using loop r qn ns sendEvent_duration[OF tm', of False False]
    by (simp add: Start_def off sk)
  with ev r show ?thesis
    by (simp add: reset_def countLine_fields)
qed


subsection \<open>Admin command lines\<close>



subsection \<open>The value of ParseUint\<close>

lemma decimal_simps [simp]:
  "decimal n [] = n" "decimal n (c # cs) = decimal (10 * n + digitVal c) cs"
  by (simp_all add: decimal_def)

lemma decimal_ge: "n \<le> decimal n cs"
proof (induction cs arbitrary: n)
  case Nil
  show ?case by simp
next
  case (Cons c cs)
  have "n \<le> 10 * n + digitVal c" by simp
  also have "\<dots> \<le> decimal (10 * n + digitVal c) cs" by (rule Cons.IH)
  finally show ?case by simp
qed

lemma unat_cutoff: "unat cutoff = 1844674407370955162"
  by (simp add: cutoff_def maxUint64_def)

lemma cutoff_le: "(cutoff \<le> n) = (2 ^ 64 \<le> 10 * unat n)"
  by (simp add: word_le_nat_alt unat_cutoff) arith

lemma unat_digit:
  assumes "is_digit c"
  shows "unat (of_char c - 48 :: 64 word) = digitVal c"
proof -
  define k where "k = (of_char c :: nat) - 48"
  from assms have k: "(of_char c :: nat) = 48 + k" "k \<le> 9"
    by (auto simp: is_digit_def k_def)
  have "(of_char c :: 64 word) = of_nat (of_char c)" by (simp only: of_nat_of_char)
  also have "\<dots> = 48 + of_nat k" using k by simp
  finally have "(of_char c - 48 :: 64 word) = of_nat k" by simp
  moreover have "unat (of_nat k :: 64 word) = k" using k by (simp add: unat_of_nat)
  ultimately show ?thesis using k by (simp add: digitVal_def)
qed

lemma ParseUint_loop_value:
  "ParseUint_loop n cs =
     (if 2 ^ 64 \<le> decimal (unat n) (takeWhile is_digit cs) then (maxUint64, Some ErrRange)
      else if takeWhile is_digit cs \<noteq> cs then (0, Some ErrSyntax)
      else (of_nat (decimal (unat n) cs), None))"
proof (induction cs arbitrary: n)
  case Nil
  have "unat n < 2 ^ 64" using unsigned_less[of n, where 'a = nat] by simp
  then show ?case by simp
next
  case (Cons c cs)
  have lt: "unat n < 2 ^ 64" using unsigned_less[of n, where 'a = nat] by simp
  show ?case
  proof (cases "is_digit c")
    case False
    with lt show ?thesis by simp
  next
    case dig: True
    let ?d = "of_char c - 48 :: 64 word"
    have ud: "unat ?d = digitVal c" by (rule unat_digit[OF dig])
    show ?thesis
    proof (cases "cutoff \<le> n")
      case True
      then have "2 ^ 64 \<le> 10 * unat n" by (simp add: cutoff_le)
      also have "\<dots> \<le> 10 * unat n + digitVal c" by simp
      also have "\<dots> \<le> decimal (10 * unat n + digitVal c) (takeWhile is_digit cs)"
        by (rule decimal_ge)
      finally show ?thesis using dig True by simp
    next
      case False
      then have small: "10 * unat n < 2 ^ 64" by (simp add: cutoff_le)
      then have um: "unat (n * 10) = 10 * unat n"
        using unat_mult_lem[of n 10] by simp
      show ?thesis
      proof (cases "n * 10 + ?d < n * 10")
        case True
        then have "\<not> n * 10 \<le> n * 10 + ?d" by simp
        then have "2 ^ 64 \<le> 10 * unat n + digitVal c"
          using no_olen_add_nat[of "n * 10" ?d] um ud by simp
        also have "\<dots> \<le> decimal (10 * unat n + digitVal c) (takeWhile is_digit cs)"
          by (rule decimal_ge)
        finally show ?thesis using dig False True by (simp add: Let_def)
      next
        case nov: False
        then have "n * 10 \<le> n * 10 + ?d" by simp
        then have "unat (n * 10) + unat ?d < 2 ^ 64"
          using no_olen_add_nat[of "n * 10" ?d] by simp
        then have u1: "unat (n * 10 + ?d) = 10 * unat n + digitVal c"
          using um ud by (simp add: unat_add_lem[THEN iffD1])
        show ?thesis
          using dig False nov Cons.IH[of "n * 10 + ?d"] u1 by (simp add: Let_def)
      qed
    qed
  qed
qed

lemma ParseUint_value:
  "ParseUint tok =
     (if tok = [] then (0, Some ErrSyntax)
      else if 2 ^ 64 \<le> decimal 0 (takeWhile is_digit tok) then (maxUint64, Some ErrRange)
      else if takeWhile is_digit tok \<noteq> tok then (0, Some ErrSyntax)
      else (of_nat (decimal 0 tok), None))"
  by (simp add: ParseUint_def ParseUint_loop_value)

lemma parseHeader_metrics:
  assumes "headerRe_MatchString line" "\<not> HasPrefix line ''# Time''" "\<not> HasPrefix line ''# User''"
  shows "parseHeader pf opt p line =
           Inr ((recordHeader p)\<lparr> event := foldl (parseMetric pf) (event (recordHeader p))
                                               (metricsRe_FindAllStringSubmatch line) \<rparr>)"
  using assms by (simp add: parseHeader_header headerLine_def)


subsection \<open>The header state after a line\<close>

lemma inHeader_sendEvent: "inHeader (state_of (sendEvent p h q)) = h"
  by (simp add: sendEvent_def state_of_def reset_def Let_def)

lemma lineOffset_sendEvent: "lineOffset (state_of (sendEvent p h q)) = lineOffset p"
  by (simp add: sendEvent_def state_of_def reset_def Let_def)

lemma inHeader_parseAdmin:
  "parseAdmin opt p line = Inr p' \<Longrightarrow> \<not> inHeader p'"
  by (auto simp: parseAdmin_def sendEvent_def reset_def Let_def split: option.splits if_splits)

lemma inHeader_headerLine:
  "headerLine pf opt p line = Inr p' \<Longrightarrow> inHeader p' = inHeader p"
  by (drule headerLine_Inr) auto

lemma inHeader_recordHeader: "inHeader (recordHeader p) = inHeader p"
  by (simp add: recordHeader_def)


subsection \<open>The event in progress carries the offset of its block\<close>







lemma blockScan_bytes:
  "fst (snd (foldl blockScan (i, b, s) ls)) = b + of_nat (length (concat ls))"
proof (induction ls rule: rev_induct)
  case Nil
  show ?case by simp
next
  case (snoc l ls)
  obtain i' b' s' where f: "foldl blockScan (i, b, s) ls = (i', b', s')"
    by (cases "foldl blockScan (i, b, s) ls") auto
  from snoc f have 1: "b' = b + of_nat (length (concat ls))" by simp
  have 2: "foldl blockScan (i, b, s) (ls @ [l]) = blockScan (i', b', s') l"
    by (simp add: f)
  have 3: "fst (snd (blockScan (i', b', s') l)) = b' + of_nat (length l)"
    by (simp add: blockScan_def Let_def)
  from 1 2 3 show ?case by simp
qed



















subsection \<open>Lines skipped outside of header and query state\<close>



section \<open>Malformed time and user header lines\<close>

text \<open>
  C10. In header state, a line that begins with \<open># Time\<close> and has no match of the
  timestamp pattern (a bare \<open># Time:\<close>, for one), or that begins with \<open># User\<close> and has
  no match of the user and host pattern, makes the header parser index the nil result of
  the failed match: the program stops with a runtime panic, after the header line has been
  counted. The line is neither skipped nor tolerated.
\<close>

theorem malformed_time_or_user_header_panics:
  assumes "inHeader p"
    and "(HasPrefix line ''# Time'' \<and> timeRe_FindStringSubmatch line = None) \<or>
         (HasPrefix line ''# User'' \<and> userRe_FindStringSubmatch line = None)"
  shows "dispatch pf opt p line = Inl (PanicIndexOutOfRange, recordHeader p)"
  using assms by (auto simp: dispatch_def parseHeader_Time_nil parseHeader_User_nil)

theorem malformed_time_or_user_header_panics_witness:
  "inHeader header_seen \<and>
   HasPrefix ''# Time:'' ''# Time'' \<and> timeRe_FindStringSubmatch ''# Time:'' = None \<and>
   dispatch id opts0 header_seen ''# Time:'' =
     Inl (PanicIndexOutOfRange, recordHeader header_seen) \<and>
   HasPrefix ''# User@Host: root'' ''# User'' \<and>
   userRe_FindStringSubmatch ''# User@Host: root'' = None \<and>
   dispatch id opts0 header_seen ''# User@Host: root'' =
     Inl (PanicIndexOutOfRange, recordHeader header_seen) \<and>
   fault_of (parse_log opts0 [] [''# Query_time: 1'', ''# Time:'', ''SELECT 1''])
     = Some PanicIndexOutOfRange"
proof -
  have i: "inHeader header_seen" by code_simp
  have t: "timeRe_FindStringSubmatch ''# Time:'' = None" by code_simp
  have h: "HasPrefix ''# Time:'' ''# Time''" by simp
  have u: "userRe_FindStringSubmatch ''# User@Host: root'' = None" by code_simp
  have g: "HasPrefix ''# User@Host: root'' ''# User''" by simp
  have r: "fault_of (parse_log opts0 [] [''# Query_time: 1'', ''# Time:'', ''SELECT 1''])
     = Some PanicIndexOutOfRange"
    by code_simp
  from malformed_time_or_user_header_panics[OF i, of "''# Time:''" id opts0]
       malformed_time_or_user_header_panics[OF i, of "''# User@Host: root''" id opts0]
       t h u g i r
  show ?thesis by blast
qed

section \<open>The schema switch in the query body\<close>

text \<open>
  C6, as amended. A body line that begins with \<open>use \<close> is a schema switch only while no
  query line has been counted for the event (\<open>queryLines\<close> is zero): then \<open>db\<close> becomes
  the rest of the line after \<open>use \<close> with every trailing \<open>;\<close> removed (\<open>TrimRight\<close>), and
  neither the query text nor the line counter changes. Once a query line has been counted
  the line is ordinary query text: \<open>db\<close> stays, and the line is appended to the query
  after a newline and counted, unless it is one of the \<open>SET\<close> lines that are ignored.
\<close>

theorem use_line_sets_db_only_before_query_text:
  assumes "HasPrefix line ''use ''"
  shows "parseQuery pf opt p line =
           (if queryLines p = 0
            then Inr (p\<lparr> event := (event p)\<lparr> Db := TrimRight (TrimPrefix line ''use '') '';'' \<rparr> \<rparr>)
            else if setRe_MatchString line then Inr p
            else Inr (p\<lparr> event := (event p)\<lparr> Query := Query (event p) @ [newline] @ line \<rparr>,
                        queryLines := queryLines p + 1 \<rparr>))"
  using assms
  by (simp add: parseQuery_use parseQuery_text use_not_admin headerRe_use)

theorem use_line_sets_db_only_before_query_text_counterexample:
  "HasPrefix ''use db;;'' ''use '' \<and>
   queryLines (NewSlowLogParser opts0 [] :: string SlowLogParser) = 0 \<and>
   TrimSuffix (TrimPrefix ''use db;;'' ''use '') '';'' = ''db;'' \<and>
   Db (event (state_of (parseQuery id opts0 (NewSlowLogParser opts0 []) ''use db;;''))) = ''db''"
  by code_simp

theorem use_line_sets_db_only_before_query_text_witness:
  "HasPrefix ''use test;'' ''use '' \<and>
   queryLines (NewSlowLogParser opts0 [] :: string SlowLogParser) = 0 \<and>
   TrimRight (TrimPrefix ''use test;'' ''use '') '';'' = ''test'' \<and>
   parseQuery id opts0 (NewSlowLogParser opts0 []) ''use test;'' =
     Inr ((NewSlowLogParser opts0 [])
            \<lparr> event := (event (NewSlowLogParser opts0 []))\<lparr> Db := ''test'' \<rparr> \<rparr>) \<and>
   queryLines mid_query = 1 \<and> \<not> setRe_MatchString ''use test;'' \<and>
   parseQuery id opts0 mid_query ''use test;'' =
     Inr (mid_query\<lparr> event := (event mid_query)
                          \<lparr> Query := Query (event mid_query) @ [newline] @ ''use test;'' \<rparr>,
                      queryLines := queryLines mid_query + 1 \<rparr>)"
proof -
  have h: "HasPrefix ''use test;'' ''use ''" by simp
  have q: "queryLines (NewSlowLogParser opts0 [] :: string SlowLogParser) = 0"
    by (simp add: NewSlowLogParser_def)
  have t: "TrimRight (TrimPrefix ''use test;'' ''use '') '';'' = ''test''"
    by (simp add: TrimRight_def TrimPrefix_def)
  have m: "queryLines mid_query = 1" by code_simp
  have s: "\<not> setRe_MatchString ''use test;''" by code_simp
  from use_line_sets_db_only_before_query_text[OF h, of id opts0 "NewSlowLogParser opts0 []"]
       use_line_sets_db_only_before_query_text[OF h, of id opts0 mid_query] h q t m s
  show ?thesis by simp
qed

section \<open>Emitted events and the query duration\<close>

text \<open>
  C1. Every event that \<open>Start\<close> delivers on the event channel, whatever the file, the
  options and the stop schedule, and also when the run ends in a fault, has an entry
  for \<open>Query_time\<close> in its time metrics. An event in progress that has no such entry and
  for which a header line was counted is discarded by \<open>sendEvent\<close>: the call returns the
  reset state and the event channel is as before.
\<close>

theorem emitted_events_carry_query_time:
  "(\<forall>e \<in> set (eventChan (state_of (Start pf opt file (NewSlowLogParser opt sig)))).
      TimeMetrics e ''Query_time'' \<noteq> None) \<and>
   (TimeMetrics (event p) ''Query_time'' = None \<and> headerLines p \<noteq> 0 \<longrightarrow>
      sendEvent p h q = Inr (reset h q p) \<and> eventChan (reset h q p) = eventChan p)"
proof -
  have "timed (NewSlowLogParser opt sig :: 'a SlowLogParser)"
    by (simp add: timed_def NewSlowLogParser_def)
  from timed_Start[OF this, of pf opt "file"] show ?thesis
    by (simp add: timed_def sendEvent_no_duration reset_def)
qed

theorem emitted_events_carry_query_time_witness:
  "length (eventChan (state_of (parse_log opts0 [] [''# Query_time: 1'', ''SELECT 1;'']))) = 1 \<and>
   TimeMetrics (hd (eventChan (state_of (parse_log opts0 [] [''# Query_time: 1'', ''SELECT 1;'']))))
     ''Query_time'' \<noteq> None \<and>
   TimeMetrics (event (recordHeader (NewSlowLogParser opts0 []) :: string SlowLogParser))
     ''Query_time'' = None \<and>
   headerLines (recordHeader (NewSlowLogParser opts0 []) :: string SlowLogParser) \<noteq> 0 \<and>
   sendEvent (recordHeader (NewSlowLogParser opts0 []) :: string SlowLogParser) True False =
     Inr (reset True False (recordHeader (NewSlowLogParser opts0 [])))"
proof -
  let ?chan = "eventChan (state_of (parse_log opts0 [] [''# Query_time: 1'', ''SELECT 1;'']))"
  have n: "length ?chan = 1"
    by code_simp
  then have m: "hd ?chan \<in> set ?chan"
    by (cases ?chan) simp_all
  have t: "TimeMetrics (event (recordHeader (NewSlowLogParser opts0 []) :: string SlowLogParser))
     ''Query_time'' = None"
    by (simp add: recordHeader_def NewSlowLogParser_def)
  have h: "headerLines (recordHeader (NewSlowLogParser opts0 []) :: string SlowLogParser) \<noteq> 0"
    by (simp add: recordHeader_def NewSlowLogParser_def)
  from emitted_events_carry_query_time
      [of id opts0 "log_of [''# Query_time: 1'', ''SELECT 1;'']" "[]"
          "recordHeader (NewSlowLogParser opts0 [])" True False] n m t h
  show ?thesis
    unfolding parse_log_def by blast
qed

section \<open>The finalizer's panic\<close>

text \<open>
  C5. When \<open>sendEvent\<close> runs on an event without \<open>Query_time\<close>, it panics if and only if
  no header line was counted for the event; with a header line counted it returns the
  reset state and delivers nothing. In a run of \<open>Start\<close> with a new parser the case
  without a header line does not arise, so the run never ends in this panic. The header
  line counter is an unsigned 64-bit integer: the file is taken to have fewer than
  \<open>2^64\<close> bytes, so that the counter cannot wrap around to zero (a file offset is a signed
  64-bit integer, so every file is that small).
\<close>

theorem finalizer_panics_only_without_header_lines:
  "(TimeMetrics (event p) ''Query_time'' = None \<longrightarrow>
      (fault_of (sendEvent p h q) = Some PanicNoQueryTime \<longleftrightarrow> headerLines p = 0) \<and>
      (headerLines p \<noteq> 0 \<longrightarrow> sendEvent p h q = Inr (reset h q p))) \<and>
   (length (unread file) < 2 ^ 64 \<longrightarrow>
      fault_of (Start pf opt file (NewSlowLogParser opt sig)) \<noteq> Some PanicNoQueryTime)"
  using Start_sound[of "file" pf opt sig]
  by (simp add: sendEvent_no_duration fault_of_def)

theorem finalizer_panics_only_without_header_lines_witness:
  "TimeMetrics (event (NewSlowLogParser opts0 [] :: string SlowLogParser)) ''Query_time'' = None \<and>
   headerLines (NewSlowLogParser opts0 [] :: string SlowLogParser) = 0 \<and>
   fault_of (sendEvent (NewSlowLogParser opts0 [] :: string SlowLogParser) False False)
     = Some PanicNoQueryTime \<and>
   TimeMetrics (event (recordHeader (NewSlowLogParser opts0 []) :: string SlowLogParser))
     ''Query_time'' = None \<and>
   headerLines (recordHeader (NewSlowLogParser opts0 []) :: string SlowLogParser) \<noteq> 0 \<and>
   sendEvent (recordHeader (NewSlowLogParser opts0 []) :: string SlowLogParser) False False =
     Inr (reset False False (recordHeader (NewSlowLogParser opts0 []))) \<and>
   length (unread (log_of [''# Thread_id: 1'', ''SELECT 1;''])) < 2 ^ 64 \<and>
   fault_of (parse_log opts0 [] [''# Thread_id: 1'', ''SELECT 1;'']) \<noteq> Some PanicNoQueryTime"
proof -
  let ?n = "NewSlowLogParser opts0 [] :: string SlowLogParser"
  have n: "length (unread (log_of [''# Thread_id: 1'', ''SELECT 1;''])) < 2 ^ 64"
    by (simp add: log_of_def)
  have t: "TimeMetrics (event ?n) ''Query_time'' = None"
    by (simp add: NewSlowLogParser_def)
  have h: "headerLines ?n = 0"
    by (simp add: NewSlowLogParser_def)
  have t': "TimeMetrics (event (recordHeader ?n)) ''Query_time'' = None"
    by (simp add: recordHeader_def NewSlowLogParser_def)
  have h': "headerLines (recordHeader ?n) \<noteq> 0"
    by (simp add: recordHeader_def NewSlowLogParser_def)
  from finalizer_panics_only_without_header_lines
         [of ?n False False "log_of [''# Thread_id: 1'', ''SELECT 1;'']" id opts0 "[]"]
       finalizer_panics_only_without_header_lines
         [of "recordHeader ?n" False False "log_of [''# Thread_id: 1'', ''SELECT 1;'']" id opts0 "[]"]
       n t h t' h'
  show ?thesis
    unfolding parse_log_def by blast
qed

section \<open>The event in progress at the end of the input\<close>

text \<open>
  C7. When the loop of \<open>Start\<close> ends without having been stopped, that is at the end of
  the input, and no query line has been counted for the event in progress, \<open>Start\<close>
  returns the state the loop left, with no call of \<open>sendEvent\<close>. When a query line has
  been counted, \<open>Start\<close> is the one call \<open>sendEvent(false, false)\<close> on that state, which
  validates the event: with \<open>Query_time\<close> among its time metrics the event is cleaned and
  delivered, once, unless the stop signal is taken instead, and then nothing is delivered
  and the parser is stopped; without \<open>Query_time\<close> the event is discarded when a header
  line was counted, and \<open>sendEvent\<close> panics when none was. In each case the state is
  reset, so that no event is in progress afterwards.
\<close>

theorem trailing_event_finalized_at_end_of_input:
  assumes "\<not> (StartOffset opt > 0 \<and> sint (StartOffset opt) < 0)"
    and "SCANNER_LOOP pf opt (Seek file (StartOffset opt)) p = Inr p'"
    and "\<not> stopped p'"
  shows "(queryLines p' = 0 \<longrightarrow> Start pf opt file p = Inr p') \<and>
         (queryLines p' \<noteq> 0 \<longrightarrow>
            Start pf opt file p = sendEvent p' False False \<and>
            (TimeMetrics (event p') ''Query_time'' \<noteq> None \<and> \<not> stopSignal p' \<longrightarrow>
               Start pf opt file p =
                 Inr (reset False False
                        (p'\<lparr> stopChan := tl (stopChan p'),
                            eventChan := eventChan p' @ [cleaned (event p')] \<rparr>))) \<and>
            (TimeMetrics (event p') ''Query_time'' \<noteq> None \<and> stopSignal p' \<longrightarrow>
               Start pf opt file p =
                 Inr (reset False False (p'\<lparr> stopChan := tl (stopChan p'), stopped := True \<rparr>))) \<and>
            (TimeMetrics (event p') ''Query_time'' = None \<and> headerLines p' \<noteq> 0 \<longrightarrow>
               Start pf opt file p = Inr (reset False False p')) \<and>
            (TimeMetrics (event p') ''Query_time'' = None \<and> headerLines p' = 0 \<longrightarrow>
               Start pf opt file p = Inl (PanicNoQueryTime, reset False False p')))"
proof -
  have s: "Start pf opt file p =
             (if queryLines p' = 0 then Inr p' else sendEvent p' False False)"
    using assms by (auto simp: Start_def Let_def word_greater_zero_iff)
  show ?thesis
    unfolding s
    by (auto simp: sendEvent_duration sendEvent_no_duration)
qed

theorem trailing_event_finalized_at_end_of_input_witness:
  "\<not> (StartOffset opts0 > 0 \<and> sint (StartOffset opts0) < 0) \<and>
   scan_log opts0 [] [''# Query_time: 1'', ''SELECT 1;''] =
     Inr (state_of (scan_log opts0 [] [''# Query_time: 1'', ''SELECT 1;''])) \<and>
   \<not> stopped (state_of (scan_log opts0 [] [''# Query_time: 1'', ''SELECT 1;''])) \<and>
   queryLines (state_of (scan_log opts0 [] [''# Query_time: 1'', ''SELECT 1;''])) \<noteq> 0 \<and>
   TimeMetrics (event (state_of (scan_log opts0 [] [''# Query_time: 1'', ''SELECT 1;''])))
     ''Query_time'' \<noteq> None \<and>
   \<not> stopSignal (state_of (scan_log opts0 [] [''# Query_time: 1'', ''SELECT 1;''])) \<and>
   eventChan (state_of (scan_log opts0 [] [''# Query_time: 1'', ''SELECT 1;''])) = [] \<and>
   Query (event (state_of (scan_log opts0 [] [''# Query_time: 1'', ''SELECT 1;'']))) = ''SELECT 1;'' \<and>
   parse_log opts0 [] [''# Query_time: 1'', ''SELECT 1;''] =
     Inr (reset False False
            ((state_of (scan_log opts0 [] [''# Query_time: 1'', ''SELECT 1;'']))
               \<lparr> stopChan := tl (stopChan (state_of (scan_log opts0 [] [''# Query_time: 1'', ''SELECT 1;'']))),
                 eventChan := eventChan (state_of (scan_log opts0 [] [''# Query_time: 1'', ''SELECT 1;''])) @
                   [cleaned (event (state_of (scan_log opts0 [] [''# Query_time: 1'', ''SELECT 1;''])))] \<rparr>)) \<and>
   map Query (eventChan (state_of (parse_log opts0 [] [''# Query_time: 1'', ''SELECT 1;'']))) = [''SELECT 1''] \<and>
   scan_log opts0 [] [''# Thread_id: 1'', ''SELECT 1;''] =
     Inr (state_of (scan_log opts0 [] [''# Thread_id: 1'', ''SELECT 1;''])) \<and>
   \<not> stopped (state_of (scan_log opts0 [] [''# Thread_id: 1'', ''SELECT 1;''])) \<and>
   queryLines (state_of (scan_log opts0 [] [''# Thread_id: 1'', ''SELECT 1;''])) \<noteq> 0 \<and>
   TimeMetrics (event (state_of (scan_log opts0 [] [''# Thread_id: 1'', ''SELECT 1;''])))
     ''Query_time'' = None \<and>
   headerLines (state_of (scan_log opts0 [] [''# Thread_id: 1'', ''SELECT 1;''])) \<noteq> 0 \<and>
   parse_log opts0 [] [''# Thread_id: 1'', ''SELECT 1;''] =
     Inr (reset False False (state_of (scan_log opts0 [] [''# Thread_id: 1'', ''SELECT 1;'']))) \<and>
   scan_log opts0 [] [''# Query_time: 1''] = Inr (state_of (scan_log opts0 [] [''# Query_time: 1''])) \<and>
   \<not> stopped (state_of (scan_log opts0 [] [''# Query_time: 1''])) \<and>
   queryLines (state_of (scan_log opts0 [] [''# Query_time: 1''])) = 0 \<and>
   parse_log opts0 [] [''# Query_time: 1''] = Inr (state_of (scan_log opts0 [] [''# Query_time: 1'']))"
proof -
  let ?A = "scan_log opts0 [] [''# Query_time: 1'', ''SELECT 1;'']"
  let ?B = "scan_log opts0 [] [''# Thread_id: 1'', ''SELECT 1;'']"
  let ?C = "scan_log opts0 [] [''# Query_time: 1'']"
  have o: "\<not> (StartOffset opts0 > 0 \<and> sint (StartOffset opts0) < 0)"
    by (simp add: opts0_def)
  have fa: "fault_of ?A = None" by code_simp
  have sa: "\<not> stopped (state_of ?A)" by code_simp
  have qa: "queryLines (state_of ?A) \<noteq> 0" by code_simp
  have ta: "TimeMetrics (event (state_of ?A)) ''Query_time'' \<noteq> None" by code_simp
  have na: "\<not> stopSignal (state_of ?A)" by code_simp
  have ea: "eventChan (state_of ?A) = []" by code_simp
  have ua: "Query (event (state_of ?A)) = ''SELECT 1;''" by code_simp
  have ma: "map Query (eventChan (state_of (parse_log opts0 [] [''# Query_time: 1'', ''SELECT 1;'']))) = [''SELECT 1'']"
    by code_simp
  have fb: "fault_of ?B = None" by code_simp
  have sb: "\<not> stopped (state_of ?B)" by code_simp
  have qb: "queryLines (state_of ?B) \<noteq> 0" by code_simp
  have tb: "TimeMetrics (event (state_of ?B)) ''Query_time'' = None" by code_simp
  have hb: "headerLines (state_of ?B) \<noteq> 0" by code_simp
  have fc: "fault_of ?C = None" by code_simp
  have sc: "\<not> stopped (state_of ?C)" by code_simp
  have qc: "queryLines (state_of ?C) = 0" by code_simp
  note la = Inr_state_of[OF fa]
  note lb = Inr_state_of[OF fb]
  note lc = Inr_state_of[OF fc]
  note A = trailing_event_finalized_at_end_of_input
             [OF o la[unfolded scan_log_def] sa[unfolded scan_log_def], folded scan_log_def parse_log_def]
  note B = trailing_event_finalized_at_end_of_input
             [OF o lb[unfolded scan_log_def] sb[unfolded scan_log_def], folded scan_log_def parse_log_def]
  note C = trailing_event_finalized_at_end_of_input
             [OF o lc[unfolded scan_log_def] sc[unfolded scan_log_def], folded scan_log_def parse_log_def]
  from A qa ta na have 1: "parse_log opts0 [] [''# Query_time: 1'', ''SELECT 1;''] =
     Inr (reset False False
            ((state_of ?A)\<lparr> stopChan := tl (stopChan (state_of ?A)),
                 eventChan := eventChan (state_of ?A) @ [cleaned (event (state_of ?A))] \<rparr>))"
    by blast
  from B qb tb hb have 2: "parse_log opts0 [] [''# Thread_id: 1'', ''SELECT 1;''] =
     Inr (reset False False (state_of ?B))"
    by blast
  from C qc have 3: "parse_log opts0 [] [''# Query_time: 1''] = Inr (state_of ?C)"
    by blast
  from o la sa qa ta na ea ua 1 ma lb sb qb tb hb 2 lc sc qc 3 show ?thesis
    by blast
qed


section \<open>Cancellation\<close>

text \<open>
  C8. When the stop signal is taken at the check at the head of the loop, the loop ends
  at once: no line is read, nothing is sent, and only the flag \<open>stopped\<close> and the stop
  channel change. When it is taken while \<open>sendEvent\<close> hands an event over, the event is
  not delivered and \<open>stopped\<close> is set. A line whose processing sets \<open>stopped\<close> has
  delivered nothing and read nothing, and the loop ends after it without a further read.
  A loop that ends stopped is not followed by the final \<open>sendEvent\<close>, whatever query text
  is pending: \<open>Start\<close> returns the state of the loop.
\<close>

theorem cancellation_stops_reading_and_emitting:
  "(\<not> stopped p1 \<and> stopSignal p1 \<longrightarrow>
      SCANNER_LOOP pf opt r p1 = Inr (p1\<lparr> stopChan := tl (stopChan p1), stopped := True \<rparr>)) \<and>
   (TimeMetrics (event p2) ''Query_time'' \<noteq> None \<and> stopSignal p2 \<longrightarrow>
      sendEvent p2 h q = Inr (reset h q (p2\<lparr> stopChan := tl (stopChan p2), stopped := True \<rparr>))) \<and>
   (\<not> stopped p3 \<and> dispatch pf opt p3 line = Inr p3' \<and> stopped p3' \<longrightarrow>
      eventChan p3' = eventChan p3 \<and> bytesRead p3' = bytesRead p3 \<and>
      SCANNER_LOOP pf opt r p3' = Inr p3') \<and>
   (stopped p4' \<and> \<not> (StartOffset opt > 0 \<and> sint (StartOffset opt) < 0) \<and>
    SCANNER_LOOP pf opt (Seek file (StartOffset opt)) p4 = Inr p4' \<longrightarrow>
      Start pf opt file p4 = Inr p4')"
proof (intro conjI impI)
  assume "\<not> stopped p1 \<and> stopSignal p1"
  then show "SCANNER_LOOP pf opt r p1 = Inr (p1\<lparr> stopChan := tl (stopChan p1), stopped := True \<rparr>)"
    by (subst SCANNER_LOOP_unfold) simp
next
  assume "TimeMetrics (event p2) ''Query_time'' \<noteq> None \<and> stopSignal p2"
  then show "sendEvent p2 h q = Inr (reset h q (p2\<lparr> stopChan := tl (stopChan p2), stopped := True \<rparr>))"
    by (simp add: sendEvent_duration)
next
  assume a: "\<not> stopped p3 \<and> dispatch pf opt p3 line = Inr p3' \<and> stopped p3'"
  with handover_dispatch[of p3 pf opt line] show "eventChan p3' = eventChan p3"
    by (auto simp: handover_def state_of_def)
  from a counters_dispatch[of pf opt p3 line] show "bytesRead p3' = bytesRead p3"
    by (simp add: counters_def state_of_def)
  from a show "SCANNER_LOOP pf opt r p3' = Inr p3'"
    by (subst SCANNER_LOOP_unfold) simp
next
  assume "stopped p4' \<and> \<not> (StartOffset opt > 0 \<and> sint (StartOffset opt) < 0) \<and>
    SCANNER_LOOP pf opt (Seek file (StartOffset opt)) p4 = Inr p4'"
  then show "Start pf opt file p4 = Inr p4'"
    by (auto simp: Start_def Let_def)
qed

theorem cancellation_stops_reading_and_emitting_witness:
  "\<not> stopped mid_query \<and> stopSignal mid_query \<and>
   SCANNER_LOOP id opts0 (log_of [''SELECT 2'']) mid_query =
     Inr (mid_query\<lparr> stopChan := tl (stopChan mid_query), stopped := True \<rparr>) \<and>
   TimeMetrics (event mid_query) ''Query_time'' \<noteq> None \<and>
   sendEvent mid_query True False =
     Inr (reset True False (mid_query\<lparr> stopChan := tl (stopChan mid_query), stopped := True \<rparr>)) \<and>
   dispatch id opts0 mid_query ''# Query_time: 2'' =
     Inr (state_of (dispatch id opts0 mid_query ''# Query_time: 2'')) \<and>
   stopped (state_of (dispatch id opts0 mid_query ''# Query_time: 2'')) \<and>
   eventChan (state_of (dispatch id opts0 mid_query ''# Query_time: 2'')) = eventChan mid_query \<and>
   \<not> (StartOffset opts0 > 0 \<and> sint (StartOffset opts0) < 0) \<and>
   scan_log opts0 [False, False, False, True] [''# Query_time: 1'', ''SELECT 1'', ''SELECT 2'', ''SELECT 3''] =
     Inr (state_of (scan_log opts0 [False, False, False, True] [''# Query_time: 1'', ''SELECT 1'', ''SELECT 2'', ''SELECT 3''])) \<and>
   stopped (state_of (scan_log opts0 [False, False, False, True] [''# Query_time: 1'', ''SELECT 1'', ''SELECT 2'', ''SELECT 3''])) \<and>
   parse_log opts0 [False, False, False, True] [''# Query_time: 1'', ''SELECT 1'', ''SELECT 2'', ''SELECT 3''] =
     Inr (state_of (scan_log opts0 [False, False, False, True] [''# Query_time: 1'', ''SELECT 1'', ''SELECT 2'', ''SELECT 3'']))"
proof -
  let ?d = "dispatch id opts0 mid_query ''# Query_time: 2''"
  let ?L = "scan_log opts0 [False, False, False, True] [''# Query_time: 1'', ''SELECT 1'', ''SELECT 2'', ''SELECT 3'']"
  have a: "\<not> stopped mid_query" by code_simp
  have b: "stopSignal mid_query" by code_simp
  have c: "TimeMetrics (event mid_query) ''Query_time'' \<noteq> None" by code_simp
  have d: "fault_of ?d = None" by code_simp
  have e: "stopped (state_of ?d)" by code_simp
  have f: "fault_of ?L = None" by code_simp
  have g: "stopped (state_of ?L)" by code_simp
  have o: "\<not> (StartOffset opts0 > 0 \<and> sint (StartOffset opts0) < 0)"
    by (simp add: opts0_def)
  note d' = Inr_state_of[OF d] and f' = Inr_state_of[OF f]
  from cancellation_stops_reading_and_emitting
         [of mid_query id opts0 "log_of [''SELECT 2'']" mid_query True False mid_query
             "''# Query_time: 2''" "state_of ?d" "state_of ?L"
             "log_of [''# Query_time: 1'', ''SELECT 1'', ''SELECT 2'', ''SELECT 3'']"
             "NewSlowLogParser opts0 [False, False, False, True]"]
       a b c d' e f'[unfolded scan_log_def] g o f'
  show ?thesis
    by (simp add: parse_log_def scan_log_def)
qed


section \<open>The clean-up of an emitted event\<close>

text \<open>
  What the clean-up does. An event that passes validation is delivered with \<open>db\<close> and
  \<open>query\<close> cleaned: from \<open>db\<close> the two-character suffix made of \<open>;\<close> and a newline is
  removed when \<open>db\<close> ends with it, and \<open>db\<close> is unchanged otherwise; from \<open>query\<close> exactly
  one trailing \<open>;\<close> is removed. The query of an event whose body is a sequence of lines
  of query text, the first of them not a schema switch, read up to the end of the file, is
  these lines in their order joined by newlines, with one trailing \<open>;\<close> removed; the
  event is delivered and the run ends without a fault.
\<close>

proposition sendEvent_cleans_db_and_query:
  "(TimeMetrics (event p0) ''Query_time'' \<noteq> None \<and> \<not> stopSignal p0 \<longrightarrow>
      eventChan (state_of (sendEvent p0 h q)) = eventChan p0 @ [cleaned (event p0)]) \<and>
   Db (cleaned ev) = TrimSuffix (Db ev) ('';'' @ [newline]) \<and>
   Query (cleaned ev) = TrimSuffix (Query ev) '';'' \<and>
   (newline \<notin> set (Db ev) \<longrightarrow> Db (cleaned ev) = Db ev) \<and>
   (inQuery p \<and> \<not> inHeader p \<and> \<not> stopped p \<and> stopChan p = [] \<and> queryLines p = 0 \<and>
    TimeMetrics (event p) ''Query_time'' \<noteq> None \<and> StartOffset opt = 0 \<and>
    ls \<noteq> [] \<and> (\<forall>l \<in> set ls. queryText l) \<and> \<not> HasPrefix (hd ls) ''use '' \<and>
    length ls < 2 ^ 64 \<longrightarrow>
      eventChan (state_of (Start pf opt (log_of ls) p)) =
        eventChan p @ [cleaned ((event p)\<lparr> Query := joinLines ls \<rparr>)] \<and>
      fault_of (Start pf opt (log_of ls) p) = None)"
proof (intro conjI impI)
  assume "TimeMetrics (event p0) ''Query_time'' \<noteq> None \<and> \<not> stopSignal p0"
  then show "eventChan (state_of (sendEvent p0 h q)) = eventChan p0 @ [cleaned (event p0)]"
    by (simp add: sendEvent_duration state_of_def reset_def)
next
  show "Db (cleaned ev) = TrimSuffix (Db ev) ('';'' @ [newline])"
    by (simp add: cleaned_def)
  show "Query (cleaned ev) = TrimSuffix (Query ev) '';''"
    by (simp add: cleaned_def)
next
  assume "newline \<notin> set (Db ev)"
  then show "Db (cleaned ev) = Db ev"
    using TrimSuffix_no_newline[of "Db ev"] by (simp add: cleaned_def)
next
  assume a: "inQuery p \<and> \<not> inHeader p \<and> \<not> stopped p \<and> stopChan p = [] \<and> queryLines p = 0 \<and>
    TimeMetrics (event p) ''Query_time'' \<noteq> None \<and> StartOffset opt = 0 \<and>
    ls \<noteq> [] \<and> (\<forall>l \<in> set ls. queryText l) \<and> \<not> HasPrefix (hd ls) ''use '' \<and>
    length ls < 2 ^ 64"
  then obtain p' where s: "Start pf opt (log_of ls) p = Inr p'"
    and c: "eventChan p' = eventChan p @ [cleaned ((event p)\<lparr> Query := joinLines ls \<rparr>)]"
    using Start_query_text[of p opt ls pf] by blast
  from s c show "eventChan (state_of (Start pf opt (log_of ls) p)) =
        eventChan p @ [cleaned ((event p)\<lparr> Query := joinLines ls \<rparr>)]"
    by (simp add: state_of_def)
  from s show "fault_of (Start pf opt (log_of ls) p) = None"
    by (simp add: fault_of_def)
qed

proposition sendEvent_cleans_db_and_query_example:
  "TimeMetrics (event query_start) ''Query_time'' \<noteq> None \<and> \<not> stopSignal query_start \<and>
   eventChan (state_of (sendEvent query_start False False)) =
     eventChan query_start @ [cleaned (event query_start)] \<and>
   newline \<notin> set (Db (event query_start)) \<and>
   Db (cleaned (event query_start)) = Db (event query_start) \<and>
   inQuery query_start \<and> \<not> inHeader query_start \<and> \<not> stopped query_start \<and>
   stopChan query_start = [] \<and> queryLines query_start = 0 \<and> StartOffset opts0 = 0 \<and>
   queryText ''SELECT a'' \<and> queryText ''FROM t;'' \<and> \<not> HasPrefix ''SELECT a'' ''use '' \<and>
   eventChan (state_of (Start id opts0 (log_of [''SELECT a'', ''FROM t;'']) query_start)) =
     eventChan query_start @
       [cleaned ((event query_start)\<lparr> Query := joinLines [''SELECT a'', ''FROM t;''] \<rparr>)] \<and>
   Query (cleaned ((event query_start)\<lparr> Query := joinLines [''SELECT a'', ''FROM t;''] \<rparr>)) =
     ''SELECT a'' @ [newline] @ ''FROM t''"
proof -
  have a: "TimeMetrics (event query_start) ''Query_time'' \<noteq> None" by code_simp
  have b: "\<not> stopSignal query_start" by code_simp
  have c: "newline \<notin> set (Db (event query_start))" by code_simp
  have d: "inQuery query_start" "\<not> inHeader query_start" "\<not> stopped query_start"
    "stopChan query_start = []" "queryLines query_start = 0"
    by code_simp+
  have e: "StartOffset opts0 = 0" by (simp add: opts0_def)
  have f: "queryText ''SELECT a''" "queryText ''FROM t;''" by code_simp+
  have g: "\<not> HasPrefix ''SELECT a'' ''use ''" by simp
  have h: "Query (cleaned ((event query_start)\<lparr> Query := joinLines [''SELECT a'', ''FROM t;''] \<rparr>)) =
     ''SELECT a'' @ [newline] @ ''FROM t''"
    by (simp add: cleaned_def joinLines_def TrimSuffix_def HasSuffix_def)
  have prem: "inQuery query_start \<and> \<not> inHeader query_start \<and> \<not> stopped query_start \<and>
      stopChan query_start = [] \<and> queryLines query_start = 0 \<and>
      TimeMetrics (event query_start) ''Query_time'' \<noteq> None \<and> StartOffset opts0 = 0 \<and>
      [''SELECT a'', ''FROM t;''] \<noteq> [] \<and> (\<forall>l \<in> set [''SELECT a'', ''FROM t;'']. queryText l) \<and>
      \<not> HasPrefix (hd [''SELECT a'', ''FROM t;'']) ''use '' \<and>
      length [''SELECT a'', ''FROM t;''] < 2 ^ 64"
    using a d e f by simp
  note t = sendEvent_cleans_db_and_query
         [of query_start False False "event query_start" query_start opts0
             "[''SELECT a'', ''FROM t;'']" id]
  from t a b have 1: "eventChan (state_of (sendEvent query_start False False)) =
     eventChan query_start @ [cleaned (event query_start)]"
    by blast
  from t c have 2: "Db (cleaned (event query_start)) = Db (event query_start)"
    by blast
  from t prem have 3: "eventChan (state_of (Start id opts0 (log_of [''SELECT a'', ''FROM t;'']) query_start)) =
     eventChan query_start @
       [cleaned ((event query_start)\<lparr> Query := joinLines [''SELECT a'', ''FROM t;''] \<rparr>)]"
    by blast
  from a b c d e f g h 1 2 3 show ?thesis
    by blast
qed


text \<open>
  C9. The claim has every delivered event carry its \<open>db\<close> with one trailing \<open>;\<close> removed
  and its \<open>query\<close> as the body lines joined by newlines with one trailing \<open>;\<close> removed.
  \<open>sendEvent\<close> trims \<open>db\<close> by the suffix \<open>;\<close> followed by a newline, while \<open>Start\<close> removes
  the newline of every line before the line is parsed, so that no \<open>db\<close> ends with this
  suffix and the trimming of \<open>db\<close> never applies; the line below it trims \<open>query\<close> by
  \<open>;\<close> alone. On the log of the two lines \<open># Query_time: 1 Schema: db;\<close> and
  \<open>SELECT 1;\<close> the accumulated \<open>db\<close> is \<open>db;\<close> and the one event delivered carries \<open>db;\<close>,
  where the claim has \<open>db\<close>; its query is \<open>SELECT 1\<close>, as claimed.
\<close>

theorem schema_db_keeps_trailing_semicolon:
  "Db (event (state_of (scan_log opts0 [] [''# Query_time: 1 Schema: db;'', ''SELECT 1;'']))) = ''db;'' \<and>
   map Db (eventChan (state_of (parse_log opts0 [] [''# Query_time: 1 Schema: db;'', ''SELECT 1;'']))) = [''db;''] \<and>
   map Query (eventChan (state_of (parse_log opts0 [] [''# Query_time: 1 Schema: db;'', ''SELECT 1;'']))) = [''SELECT 1''] \<and>
   fault_of (parse_log opts0 [] [''# Query_time: 1 Schema: db;'', ''SELECT 1;'']) = None"
  by code_simp


section \<open>Admin commands\<close>





section \<open>The metrics of a header line\<close>

text \<open>
  C4, as amended. A header line that begins with none of \<open># Time\<close>, \<open># User\<close> and
  \<open># admin\<close> is read as the sequence of its \<open>name: value\<close> pairs, each classified by the
  first rule that applies: a name that ends in \<open>_time\<close> or \<open>_wait\<close> stores the parsed
  float in the time metrics; a value that is exactly \<open>Yes\<close> or \<open>No\<close> stores a boolean
  in the boolean metrics; \<open>Schema\<close> sets \<open>db\<close>; \<open>Log_slow_rate_type\<close> sets the rate
  type; \<open>Log_slow_rate_limit\<close> sets the rate limit to the low 8 bits of the parsed
  unsigned integer; any other pair stores the parsed unsigned integer in the number
  metrics. The line never fails. An integer token that cannot be parsed gives zero when
  it is empty or a byte that is not a digit is met before the digits read so far exceed
  \<open>2^64 - 1\<close>, and gives \<open>2^64 - 1\<close> when its leading digits exceed \<open>2^64 - 1\<close>; a token
  of digits within the range gives its value. The value of a float token is the one the
  parameter \<open>pf\<close> gives.
\<close>

theorem metric_pairs_classified_in_order:
  "(headerRe_MatchString line \<and> \<not> HasPrefix line ''# Time'' \<and> \<not> HasPrefix line ''# User'' \<longrightarrow>
      parseHeader pf opt p line =
        Inr ((recordHeader p)\<lparr> event := foldl (parseMetric pf) (event (recordHeader p))
                                            (metricsRe_FindAllStringSubmatch line) \<rparr>)) \<and>
   parseMetric pf ev (name, tok) =
     (if HasSuffix name ''_time'' \<or> HasSuffix name ''_wait''
      then ev\<lparr> TimeMetrics := (TimeMetrics ev)(name \<mapsto> pf tok) \<rparr>
      else if tok = ''Yes'' \<or> tok = ''No''
      then ev\<lparr> BoolMetrics := (BoolMetrics ev)(name \<mapsto> (tok = ''Yes'')) \<rparr>
      else if name = ''Schema'' then ev\<lparr> Db := tok \<rparr>
      else if name = ''Log_slow_rate_type'' then ev\<lparr> RateType := tok \<rparr>
      else if name = ''Log_slow_rate_limit'' then ev\<lparr> RateLimit := ucast (fst (ParseUint tok)) \<rparr>
      else ev\<lparr> NumberMetrics := (NumberMetrics ev)(name \<mapsto> fst (ParseUint tok)) \<rparr>) \<and>
   fst (ParseUint tok) =
     (if tok = [] then 0
      else if 2 ^ 64 \<le> decimal 0 (takeWhile is_digit tok) then maxUint64
      else if takeWhile is_digit tok \<noteq> tok then 0
      else of_nat (decimal 0 tok))"
proof (intro conjI impI)
  assume "headerRe_MatchString line \<and> \<not> HasPrefix line ''# Time'' \<and> \<not> HasPrefix line ''# User''"
  then show "parseHeader pf opt p line =
        Inr ((recordHeader p)\<lparr> event := foldl (parseMetric pf) (event (recordHeader p))
                                            (metricsRe_FindAllStringSubmatch line) \<rparr>)"
    by (simp add: parseHeader_metrics)
next
  show "parseMetric pf ev (name, tok) =
     (if HasSuffix name ''_time'' \<or> HasSuffix name ''_wait''
      then ev\<lparr> TimeMetrics := (TimeMetrics ev)(name \<mapsto> pf tok) \<rparr>
      else if tok = ''Yes'' \<or> tok = ''No''
      then ev\<lparr> BoolMetrics := (BoolMetrics ev)(name \<mapsto> (tok = ''Yes'')) \<rparr>
      else if name = ''Schema'' then ev\<lparr> Db := tok \<rparr>
      else if name = ''Log_slow_rate_type'' then ev\<lparr> RateType := tok \<rparr>
      else if name = ''Log_slow_rate_limit'' then ev\<lparr> RateLimit := ucast (fst (ParseUint tok)) \<rparr>
      else ev\<lparr> NumberMetrics := (NumberMetrics ev)(name \<mapsto> fst (ParseUint tok)) \<rparr>)"
    by (simp add: parseMetric_def)
next
  show "fst (ParseUint tok) =
     (if tok = [] then 0
      else if 2 ^ 64 \<le> decimal 0 (takeWhile is_digit tok) then maxUint64
      else if takeWhile is_digit tok \<noteq> tok then 0
      else of_nat (decimal 0 tok))"
    by (simp add: ParseUint_value)
qed

theorem metric_pairs_classified_in_order_counterexample:
  "snd (ParseUint ''18446744073709551616'') = Some ErrRange \<and>
   NumberMetrics (parseMetric id (NewEvent ()) (''Rows_sent'', ''18446744073709551616'')) ''Rows_sent''
     = Some 18446744073709551615 \<and>
   RateLimit (parseMetric id (NewEvent ()) (''Log_slow_rate_limit'', ''18446744073709551616'')) = 255 \<and>
   NumberMetrics (hd (eventChan (state_of
       (parse_log opts0 [] [''# Query_time: 1 Rows_sent: 18446744073709551616'', ''SELECT 1'']))))
     ''Rows_sent'' = Some 18446744073709551615"
  by code_simp

theorem metric_pairs_classified_in_order_witness:
  "headerRe_MatchString ''# Rows_sent: 12x Killed: 7'' \<and>
   \<not> HasPrefix ''# Rows_sent: 12x Killed: 7'' ''# Time'' \<and>
   \<not> HasPrefix ''# Rows_sent: 12x Killed: 7'' ''# User'' \<and>
   parseHeader id opts0 (NewSlowLogParser opts0 []) ''# Rows_sent: 12x Killed: 7'' =
     Inr ((recordHeader (NewSlowLogParser opts0 []))
            \<lparr> event := foldl (parseMetric id) (event (recordHeader (NewSlowLogParser opts0 [])))
                          (metricsRe_FindAllStringSubmatch ''# Rows_sent: 12x Killed: 7'') \<rparr>) \<and>
   metricsRe_FindAllStringSubmatch ''# Rows_sent: 12x Killed: 7'' =
     [(''Rows_sent'', ''12x''), (''Killed'', ''7'')] \<and>
   fst (ParseUint ''12x'') = 0 \<and> fst (ParseUint ''7'') = 7"
proof -
  let ?l = "''# Rows_sent: 12x Killed: 7''"
  have a: "headerRe_MatchString ?l" by code_simp
  have b: "\<not> HasPrefix ?l ''# Time''" "\<not> HasPrefix ?l ''# User''" by simp_all
  have c: "metricsRe_FindAllStringSubmatch ?l = [(''Rows_sent'', ''12x''), (''Killed'', ''7'')]"
    by code_simp
  have d: "takeWhile is_digit ''12x'' \<noteq> ''12x''" "\<not> (2::nat) ^ 64 \<le> decimal 0 (takeWhile is_digit ''12x'')"
    by (simp_all add: is_digit_def digitVal_def)
  have e: "takeWhile is_digit ''7'' = ''7''" "\<not> (2::nat) ^ 64 \<le> decimal 0 (takeWhile is_digit ''7'')"
      "decimal 0 ''7'' = 7"
    by (simp_all add: is_digit_def digitVal_def)
  note t1 = metric_pairs_classified_in_order
              [of ?l id opts0 "NewSlowLogParser opts0 []" "NewEvent ()" "''Rows_sent''" "''12x''"]
  note t2 = metric_pairs_classified_in_order
              [of ?l id opts0 "NewSlowLogParser opts0 []" "NewEvent ()" "''Killed''" "''7''"]
  from t1 a b have 1: "parseHeader id opts0 (NewSlowLogParser opts0 []) ?l =
     Inr ((recordHeader (NewSlowLogParser opts0 []))
            \<lparr> event := foldl (parseMetric id) (event (recordHeader (NewSlowLogParser opts0 [])))
                          (metricsRe_FindAllStringSubmatch ?l) \<rparr>)"
    by blast
  from t1 d have 2: "fst (ParseUint ''12x'') = 0" by simp
  from t2 e have 3: "fst (ParseUint ''7'') = 7" by simp
  from a b c 1 2 3 show ?thesis by blast
qed


section \<open>Line offsets and event offsets\<close>





end
